theory Spec2Isabelle
  imports Main
begin

section \<open>Strings and regular expressions of the host language\<close>

text \<open>
  A string of the source language is a sequence of UTF-16 code units; a code unit is
  modelled as a natural number. \<open>str\<close> turns an ASCII literal of this theory into such a
  string.
\<close>

type_synonym jsstring = "nat list"

definition str :: "string \<Rightarrow> jsstring" where
  "str s = map of_char s"

text \<open>
  The character predicates of the regular-expression language, as the language standard
  defines them: \<open>\d\<close> is the ten ASCII digits, \<open>\w\<close> the 63 basic word characters
  (letters, digits, underscore), and \<open>.\<close> (without the \<open>s\<close> flag, which no pattern of the
  program has) is every code unit but the four line terminators LF, CR, U+2028, U+2029.
\<close>

definition isDigit :: "nat \<Rightarrow> bool" where
  "isDigit c = (48 \<le> c \<and> c \<le> 57)"

definition isWordChar :: "nat \<Rightarrow> bool" where
  "isWordChar c = ((97 \<le> c \<and> c \<le> 122) \<or> (65 \<le> c \<and> c \<le> 90) \<or> (48 \<le> c \<and> c \<le> 57) \<or> c = 95)"

definition isLineTerminator :: "nat \<Rightarrow> bool" where
  "isLineTerminator c = (c = 10 \<or> c = 13 \<or> c = 8232 \<or> c = 8233)"

text \<open>
  \<open>canonicalize\<close> is the case folding of the \<open>i\<close> flag (without the \<open>u\<close> flag): a code
  unit is replaced by its upper-case form, except that a code unit outside ASCII is never
  folded onto an ASCII one. Every literal character of the program's patterns is ASCII;
  compared with an ASCII character, the folding of the standard agrees with the folding of
  the ASCII letters below.
\<close>

definition canonicalize :: "bool \<Rightarrow> nat \<Rightarrow> nat" where
  "canonicalize ignoreCase c =
     (if ignoreCase \<and> 97 \<le> c \<and> c \<le> 122 then c - 32 else c)"

text \<open>
  The part of the pattern syntax that the program uses. \<open>Lit w\<close> is a run of literal
  characters, \<open>Cls\<close> a bracketed class (\<open>\d\<close> and \<open>\w\<close> alone are the classes
  \<open>[\d]\<close> and \<open>[\w]\<close>), \<open>Bol\<close> and \<open>Eol\<close> the assertions \<open>^\<close> and \<open>$\<close>
  (without the \<open>m\<close> flag: start and end of the input).
\<close>

datatype citem = Ch nat | DigitC | WordC

datatype rexp =
    Lit jsstring
  | Dot
  | Cls "citem list"
  | Seq rexp rexp
  | Alt rexp rexp
  | Star rexp
  | Bol
  | Eol

definition Opt :: "rexp \<Rightarrow> rexp" where
  "Opt r = Alt r (Lit [])"

definition Plus :: "rexp \<Rightarrow> rexp" where
  "Plus r = Seq r (Star r)"

fun seqs :: "rexp list \<Rightarrow> rexp" where
  "seqs [] = Lit []"
| "seqs [r] = r"
| "seqs (r # rs) = Seq r (seqs rs)"

fun alts :: "rexp list \<Rightarrow> rexp" where
  "alts [] = Cls []"
| "alts [r] = r"
| "alts (r # rs) = Alt r (alts rs)"

fun citem_match :: "bool \<Rightarrow> citem \<Rightarrow> nat \<Rightarrow> bool" where
  "citem_match ic (Ch a) c = (canonicalize ic a = canonicalize ic c)"
| "citem_match ic DigitC c = isDigit c"
| "citem_match ic WordC c = isWordChar c"

fun stripPrefix :: "bool \<Rightarrow> jsstring \<Rightarrow> jsstring \<Rightarrow> jsstring option" where
  "stripPrefix ic [] s = Some s"
| "stripPrefix ic (a # w) [] = None"
| "stripPrefix ic (a # w) (c # s) =
     (if canonicalize ic a = canonicalize ic c then stripPrefix ic w s else None)"

text \<open>
  The matcher. A position in the input is the number of code units before it together
  with the code units from it on. \<open>rmatch ic r p\<close> lists every position at which a match
  of \<open>r\<close> that starts at \<open>p\<close> can end. The patterns of the program have no
  back-reference and no look-around, and the program only asks whether a match exists
  (\<open>test\<close>), so the order of the alternatives and the greediness of the repetitions, which
  order this list, do not matter. As in the standard, an iteration of a repetition that
  consumes nothing is rejected.
\<close>

function rmatch :: "bool \<Rightarrow> rexp \<Rightarrow> nat \<times> jsstring \<Rightarrow> (nat \<times> jsstring) list" where
  "rmatch ic (Lit w) (n, s) =
     (case stripPrefix ic w s of None \<Rightarrow> [] | Some t \<Rightarrow> [(n + length w, t)])"
| "rmatch ic Dot (n, s) =
     (case s of [] \<Rightarrow> [] | c # t \<Rightarrow> if isLineTerminator c then [] else [(Suc n, t)])"
| "rmatch ic (Cls items) (n, s) =
     (case s of [] \<Rightarrow> []
      | c # t \<Rightarrow> if list_ex (\<lambda>i. citem_match ic i c) items then [(Suc n, t)] else [])"
| "rmatch ic (Seq r1 r2) (n, s) = concat (map (rmatch ic r2) (rmatch ic r1 (n, s)))"
| "rmatch ic (Alt r1 r2) (n, s) = rmatch ic r1 (n, s) @ rmatch ic r2 (n, s)"
| "rmatch ic (Star r) (n, s) =
     (n, s) # concat (map (rmatch ic (Star r))
                  (filter (\<lambda>p. length (snd p) < length s) (rmatch ic r (n, s))))"
| "rmatch ic Bol (n, s) = (if n = 0 then [(n, s)] else [])"
| "rmatch ic Eol (n, s) = (if s = [] then [(n, s)] else [])"
  by pat_completeness auto
termination
  by (relation "measures [\<lambda>(ic, r, p). size r, \<lambda>(ic, r, p). length (snd p)]") auto

text \<open>
  \<open>RegExp.test\<close> of a pattern without the \<open>g\<close> and \<open>y\<close> flags (none of the program's
  patterns has them, so \<open>test\<close> keeps no state between calls): is there a match
  starting at some index of the input?
\<close>

fun search :: "bool \<Rightarrow> rexp \<Rightarrow> nat \<Rightarrow> jsstring \<Rightarrow> bool" where
  "search ic r n [] = (rmatch ic r (n, []) \<noteq> [])"
| "search ic r n (c # s) = (rmatch ic r (n, c # s) \<noteq> [] \<or> search ic r (Suc n) s)"

record regExp =
  source :: rexp
  ignoreCase :: bool

definition test :: "regExp \<Rightarrow> jsstring \<Rightarrow> bool" where
  "test re s = search (ignoreCase re) (source re) 0 s"

section \<open>The link classifier (helpers.ts)\<close>

definition videoPattern :: regExp where
  "videoPattern = \<lparr> source = seqs
     [Lit (str ''http''), Opt (Lit (str ''s'')), Lit (str ''://''), Star Dot, Lit (str ''.''),
      alts [Lit (str ''mp4''), Lit (str ''webm''), Lit (str ''ogg''), Lit (str ''mp3''),
            Lit (str ''wav''), Lit (str ''m4a''), Lit (str ''flac''), Lit (str ''aac'')],
      Opt (Seq (Lit (str ''?'')) (Star Dot)), Eol],
     ignoreCase = False \<rparr>"

definition gaPatterns :: "regExp list" where
  "gaPatterns =
    [\<lparr> source = seqs
        [Bol, Opt (seqs [Lit (str ''http''), Opt (Lit (str ''s'')), Lit (str ''://'')]),
         Opt (Lit (str ''www.'')),
         alts [Lit (str ''analytics.google.com''), Lit (str ''www.google-analytics.com'')],
         Opt (Seq (Lit (str ''/'')) (Star Dot)), Eol],
       ignoreCase = True \<rparr>,
     \<lparr> source = Lit (str ''https://googleads.g.doubleclick.net/pagead/id''),
       ignoreCase = False \<rparr>]"

definition youtubePatterns :: "regExp list" where
  "youtubePatterns =
    [\<lparr> source = seqs
        [Lit (str ''https://''), Opt (Lit (str ''www.'')), Lit (str ''youtube.com/''),
         alts [Lit (str ''watch?v=''), Lit (str ''embed/''),
               seqs [Lit (str ''api/stats/''),
                     alts [Lit (str ''playback''), Lit (str ''atr''), Lit (str ''qoe''),
                           Lit (str ''ptracking''), Lit (str ''watchtime'')],
                     Lit (str ''?'')],
               Lit (str ''ptracking?''), Lit (str ''v/''), Lit (str ''c/''), Lit (str ''user/''),
               Lit (str ''channel/''), Lit (str ''playlist?list=''), Lit (str ''shorts/''),
               Lit (str ''results?search_query='')],
         Plus (Cls [WordC, Ch (of_char CHR ''-'')]),
         Star (Seq (Lit (str ''&'')) (Star (Cls [WordC, Ch (of_char CHR ''='')])))],
       ignoreCase = False \<rparr>,
     \<lparr> source = Seq (Lit (str ''https://www.youtube.com/generate_204?'')) (Star Dot),
       ignoreCase = False \<rparr>]"

definition recaptchaPatterns :: "regExp list" where
  "recaptchaPatterns =
    [\<lparr> source = Seq (Lit (str ''https://www.google.com/recaptcha/'')) (Star Dot),
       ignoreCase = False \<rparr>,
     \<lparr> source = Seq (Lit (str ''https://www.google.com/recaptcha/api2/'')) (Star Dot),
       ignoreCase = False \<rparr>,
     \<lparr> source = Seq (Lit (str ''https://www.google.com/recaptcha/enterprise/'')) (Star Dot),
       ignoreCase = False \<rparr>]"

definition exceptPattern :: regExp where
  "exceptPattern = \<lparr> source = seqs
     [Lit (str ''https://stats.g.doubleclick.net/g/collect?v=''), Plus (Cls [DigitC]),
      Lit (str ''&tid=G-''), Plus (Cls [WordC, DigitC]),
      Lit (str ''&cid=''), Plus (Cls [DigitC]), Lit (str ''.''), Plus (Cls [DigitC]),
      Lit (str ''&gtm=''), Plus (Cls [WordC, DigitC]),
      Lit (str ''&aip=''), Plus (Cls [DigitC]),
      Lit (str ''&dma=''), Plus (Cls [DigitC]),
      Lit (str ''&gcd=''), Plus (Cls [WordC, DigitC]),
      Lit (str ''&npa=''), Plus (Cls [DigitC]),
      Lit (str ''&frm=''), Plus (Cls [DigitC]),
      Lit (str ''&tag_exp=''), Plus (Cls [DigitC])],
     ignoreCase = False \<rparr>"

text \<open>
  The module \<open>./routes\<close>, from which the classifier imports the base URL \<open>main\<close> and
  the table \<open>pageRoutes\<close>, is not part of the sources: the two strings it supplies are
  parameters of the model.
\<close>

record routes =
  main :: jsstring
  financial_results :: jsstring

definition exceptUrls :: "routes \<Rightarrow> jsstring list" where
  "exceptUrls rt =
    [str ''https://consentcdn.cookiebot.com/consentconfig/7f599eef-471b-4c16-a0c6-40061801485c/localhost/configuration.js'',
     main rt @ str ''api/subscribe'',
     str ''https://www.carlyle.com/cdn-cgi/challenge-platform/scripts/jsd/main.js'']"

definition exceptPages :: "routes \<Rightarrow> jsstring list" where
  "exceptPages rt = [main rt @ financial_results rt]"

datatype tag = Video | GA | YT | Ignore | Exception | NONE

definition LinkType :: "routes \<Rightarrow> jsstring \<Rightarrow> jsstring \<Rightarrow> tag" where
  "LinkType rt url page =
    (if test videoPattern url then Video
     else if list_ex (\<lambda>pattern. test pattern url) gaPatterns then GA
     else if list_ex (\<lambda>pattern. test pattern url) youtubePatterns then YT
     else if list_ex (\<lambda>pattern. test pattern url) recaptchaPatterns then Ignore
     else if test exceptPattern url then Exception
     else if list_ex (\<lambda>except. except = url) (exceptUrls rt)
           \<or> list_ex (\<lambda>exceptPage. exceptPage = page) (exceptPages rt) then Ignore
     else NONE)"

section \<open>Locator resolution (pageClass.ts)\<close>

text \<open>
  The options object of the page helpers (\<open>ValidateOptions\<close> with the \<open>text\<close> of
  \<open>ValidateClickOptions\<close> and \<open>ValidateTextOptions\<close>). A field that the caller leaves out
  is \<open>None\<close>. The fields \<open>id\<close>, \<open>nth\<close> and \<open>text\<close> carry a prime because their names are
  taken in Isabelle.
\<close>

record roleName =
  name :: jsstring
  exact :: "bool option"

datatype nthSel = Index int | Last

record criteria =
  testId :: "jsstring option"
  id' :: "jsstring option"
  classes :: "jsstring option"
  nth' :: "nthSel option"
  role :: "jsstring option"
  roleName :: "roleName option"
  tag :: "jsstring option"
  text' :: "jsstring option"

text \<open>
  The conditions \<open>if (testId)\<close>, \<open>if (id && \<dots>)\<close> test the truthiness of an optional
  string: it is falsy when it is undefined and when it is the empty string.
\<close>

definition truthy :: "jsstring option \<Rightarrow> bool" where
  "truthy v = (case v of None \<Rightarrow> False | Some s \<Rightarrow> s \<noteq> [])"

text \<open>The string an optional string stands for where the program uses it as a string.\<close>

definition strOf :: "jsstring option \<Rightarrow> jsstring" where
  "strOf v = (case v of None \<Rightarrow> str ''undefined'' | Some s \<Rightarrow> s)"

text \<open>
  A locator of the automation framework is built lazily by chaining queries: it is
  modelled as the list of the queries made, the first on the page and every later one on
  the locator built so far. The second argument of \<open>GetByRole\<close> is the options object:
  \<open>None\<close> is \<open>{}\<close>.
\<close>

datatype query =
    GetByTestId jsstring
  | LocatorSel jsstring
  | GetByRole jsstring "roleName option"
  | GetByText jsstring
  | FilterHasText jsstring
  | NthQ int
  | LastQ

type_synonym locator = "query list"

datatype baseField = B_testId | B_tag | B_role | B_text | B_id | B_classes

datatype error = Error string

text \<open>
  The block "Establecer base del locator", in its two forms: with the final
  \<open>else if (text)\<close> branch and without it. The message of the thrown error differs
  between the methods and is a parameter.
\<close>

definition baseWithText :: "string \<Rightarrow> criteria \<Rightarrow> error + (locator \<times> baseField)" where
  "baseWithText msg c =
    (if truthy (testId c) then Inr ([GetByTestId (strOf (testId c))], B_testId)
     else if truthy (id' c) then Inr ([LocatorSel (str ''#'' @ strOf (id' c))], B_id)
     else if truthy (classes c) then Inr ([LocatorSel (str ''.'' @ strOf (classes c))], B_classes)
     else if truthy (tag c) then Inr ([LocatorSel (strOf (tag c))], B_tag)
     else if truthy (role c) then Inr ([GetByRole (strOf (role c)) (roleName c)], B_role)
     else if truthy (text' c) then Inr ([GetByText (strOf (text' c))], B_text)
     else Inl (Error msg))"

definition baseWithoutText :: "string \<Rightarrow> criteria \<Rightarrow> error + (locator \<times> baseField)" where
  "baseWithoutText msg c =
    (if truthy (testId c) then Inr ([GetByTestId (strOf (testId c))], B_testId)
     else if truthy (id' c) then Inr ([LocatorSel (str ''#'' @ strOf (id' c))], B_id)
     else if truthy (classes c) then Inr ([LocatorSel (str ''.'' @ strOf (classes c))], B_classes)
     else if truthy (tag c) then Inr ([LocatorSel (strOf (tag c))], B_tag)
     else if truthy (role c) then Inr ([GetByRole (strOf (role c)) (roleName c)], B_role)
     else Inl (Error msg))"

text \<open>The statements that follow the base, one definition per statement.\<close>

definition addId :: "criteria \<Rightarrow> baseField \<Rightarrow> locator \<Rightarrow> locator" where
  "addId c baseUsed l =
    (if truthy (id' c) \<and> baseUsed \<noteq> B_id then l @ [LocatorSel (str ''#'' @ strOf (id' c))] else l)"

definition addClasses :: "criteria \<Rightarrow> baseField \<Rightarrow> locator \<Rightarrow> locator" where
  "addClasses c baseUsed l =
    (if truthy (classes c) \<and> baseUsed \<noteq> B_classes
     then l @ [LocatorSel (str ''.'' @ strOf (classes c))] else l)"

definition addRole :: "criteria \<Rightarrow> baseField \<Rightarrow> locator \<Rightarrow> locator" where
  "addRole c baseUsed l =
    (if truthy (role c) \<and> baseUsed \<noteq> B_role
     then l @ [GetByRole (strOf (role c)) (roleName c)] else l)"

definition addTag :: "criteria \<Rightarrow> baseField \<Rightarrow> locator \<Rightarrow> locator" where
  "addTag c baseUsed l =
    (if truthy (tag c) \<and> baseUsed \<noteq> B_tag then l @ [LocatorSel (strOf (tag c))] else l)"

definition addText :: "criteria \<Rightarrow> baseField \<Rightarrow> locator \<Rightarrow> locator" where
  "addText c baseUsed l =
    (if truthy (text' c) \<and> baseUsed \<noteq> B_text then l @ [FilterHasText (strOf (text' c))] else l)"

definition handleNth :: "criteria \<Rightarrow> locator \<Rightarrow> locator" where
  "handleNth c l =
    (case nth' c of Some (Index i) \<Rightarrow> l @ [NthQ i] | Some Last \<Rightarrow> l @ [LastQ] | None \<Rightarrow> l)"

text \<open>
  The locator each method resolves before it acts on it (the action itself, a call of
  the framework, is not modelled). Every definition lists the statements of its method
  in the order of the source.
\<close>

definition msgA :: string where
  "msgA = ''Must provide at least one of testId, tag, role, or text.''"

definition msgB :: string where
  "msgB = ''Must provide at least one of testId, id, classes, tag, or role.''"


definition emptyCriteria :: criteria where
  "emptyCriteria = \<lparr> testId = None, id' = None, classes = None, nth' = None, role = None,
     roleName = None, tag = None, text' = None \<rparr>"

text \<open>
  \<open>verifyDesing\<close> with the focus "element" reads its criteria through
  \<open>properties.element?.\<close>: without an element every field is undefined.
\<close>

definition verifyDesing :: "criteria option \<Rightarrow> error + locator" where
  "verifyDesing element =
    (let c = (case element of None \<Rightarrow> emptyCriteria | Some e \<Rightarrow> e) in
     case baseWithoutText msgB c of Inl e \<Rightarrow> Inl e
     | Inr (l, baseUsed) \<Rightarrow> Inr (handleNth c (addTag c baseUsed
         (addRole c baseUsed (addClasses c baseUsed (addId c baseUsed l))))))"




definition TestVisible :: "criteria \<Rightarrow> error + locator" where
  "TestVisible c = (case baseWithText msgA c of Inl e \<Rightarrow> Inl e
     | Inr (l, baseUsed) \<Rightarrow> Inr (handleNth c (addText c baseUsed (addTag c baseUsed
         (addRole c baseUsed (addId c baseUsed l))))))"

definition TestExist :: "criteria \<Rightarrow> error + locator" where
  "TestExist c = (case baseWithText msgA c of Inl e \<Rightarrow> Inl e
     | Inr (l, baseUsed) \<Rightarrow> Inr (handleNth c (addText c baseUsed (addTag c baseUsed
         (addRole c baseUsed (addId c baseUsed l))))))"




definition clickElement :: "criteria \<Rightarrow> error + locator" where
  "clickElement c = (case baseWithText msgA c of Inl e \<Rightarrow> Inl e
     | Inr (l, baseUsed) \<Rightarrow> Inr (handleNth c (addText c baseUsed (addTag c baseUsed
         (addRole c baseUsed (addClasses c baseUsed (addId c baseUsed l)))))))"



text \<open>
  \<open>testImage\<close> is not an instance of the scheme above: it looks its element up by test
  id only, refines by role (without options) and index, and without a test id it returns
  without locating or checking anything (\<open>None\<close>).
\<close>

definition testImage :: "criteria \<Rightarrow> locator option" where
  "testImage c =
    (if truthy (testId c) then
       (let l = [GetByTestId (strOf (testId c))];
            l = (if truthy (role c) then l @ [GetByRole (strOf (role c)) None] else l);
            l = (case nth' c of Some (Index i) \<Rightarrow> l @ [NthQ i] | _ \<Rightarrow> l);
            l = (if nth' c = Some Last then l @ [LastQ] else l)
        in Some l)
     else None)"







section \<open>Reference definitions for the statements\<close>

text \<open>
  The classifier as the specification describes it: an ordered list of rules, each a
  predicate on the pair of request URL and page URL with its tag, the first rule that
  matches deciding, and a default. This definition follows the specification's words; the
  theorems compare \<open>LinkType\<close> with it.
\<close>

fun firstMatch :: "(('a \<Rightarrow> bool) \<times> tag) list \<Rightarrow> tag \<Rightarrow> 'a \<Rightarrow> tag" where
  "firstMatch [] dflt x = dflt"
| "firstMatch ((p, t) # rules) dflt x = (if p x then t else firstMatch rules dflt x)"

definition isVideo :: "jsstring \<Rightarrow> bool" where
  "isVideo url = test videoPattern url"

definition isGA :: "jsstring \<Rightarrow> bool" where
  "isGA url = list_ex (\<lambda>pattern. test pattern url) gaPatterns"

definition isYT :: "jsstring \<Rightarrow> bool" where
  "isYT url = list_ex (\<lambda>pattern. test pattern url) youtubePatterns"

definition isRecaptcha :: "jsstring \<Rightarrow> bool" where
  "isRecaptcha url = list_ex (\<lambda>pattern. test pattern url) recaptchaPatterns"

definition isException :: "jsstring \<Rightarrow> bool" where
  "isException url = test exceptPattern url"

definition isListed :: "routes \<Rightarrow> jsstring \<Rightarrow> jsstring \<Rightarrow> bool" where
  "isListed rt url page =
     (list_ex (\<lambda>except. except = url) (exceptUrls rt)
      \<or> list_ex (\<lambda>exceptPage. exceptPage = page) (exceptPages rt))"

definition specRules :: "routes \<Rightarrow> ((jsstring \<times> jsstring \<Rightarrow> bool) \<times> tag) list" where
  "specRules rt =
    [(\<lambda>(url, page). isVideo url, Video),
     (\<lambda>(url, page). isGA url, GA),
     (\<lambda>(url, page). isYT url, YT),
     (\<lambda>(url, page). isRecaptcha url, Ignore),
     (\<lambda>(url, page). isException url, Exception),
     (\<lambda>(url, page). isListed rt url page, Ignore)]"

text \<open>
  The variant of the classifier that keeps only the first of the three recaptcha
  patterns; everything else is \<open>LinkType\<close>.
\<close>

definition LinkType_firstRecaptchaOnly :: "routes \<Rightarrow> jsstring \<Rightarrow> jsstring \<Rightarrow> tag" where
  "LinkType_firstRecaptchaOnly rt url page =
    (if test videoPattern url then Video
     else if list_ex (\<lambda>pattern. test pattern url) gaPatterns then GA
     else if list_ex (\<lambda>pattern. test pattern url) youtubePatterns then YT
     else if list_ex (\<lambda>pattern. test pattern url) [hd recaptchaPatterns] then Ignore
     else if test exceptPattern url then Exception
     else if list_ex (\<lambda>except. except = url) (exceptUrls rt)
           \<or> list_ex (\<lambda>exceptPage. exceptPage = page) (exceptPages rt) then Ignore
     else NONE)"

text \<open>
  The canonical beacon URL of the specification, and the URLs obtained from it by
  reordering and omitting query parameters: the part up to the question mark followed by
  parameters joined with ampersands.
\<close>

definition canonicalBeacon :: jsstring where
  "canonicalBeacon = str ''https://stats.g.doubleclick.net/g/collect?v=1&tid=G-ABC123&cid=1.2&gtm=xyz&aip=1&dma=1&gcd=1&npa=1&frm=1&tag_exp=1''"

definition beaconBase :: jsstring where
  "beaconBase = str ''https://stats.g.doubleclick.net/g/collect?''"

definition beaconParams :: "jsstring list" where
  "beaconParams =
    [str ''v=1'', str ''tid=G-ABC123'', str ''cid=1.2'', str ''gtm=xyz'', str ''aip=1'',
     str ''dma=1'', str ''gcd=1'', str ''npa=1'', str ''frm=1'', str ''tag_exp=1'']"

fun joinAmp :: "jsstring list \<Rightarrow> jsstring" where
  "joinAmp [] = []"
| "joinAmp [p] = p"
| "joinAmp (p # ps) = p @ 38 # joinAmp ps"

definition beaconVariant :: "jsstring list \<Rightarrow> jsstring" where
  "beaconVariant ps = beaconBase @ joinAmp ps"

text \<open>A pattern matches a string as a whole: some match that starts at index 0 ends at the end.\<close>

definition matchesWhole :: "regExp \<Rightarrow> jsstring \<Rightarrow> bool" where
  "matchesWhole re u =
     list_ex (\<lambda>p. snd p = []) (rmatch (ignoreCase re) (source re) (0, u))"

text \<open>The extensions of the media-file pattern.\<close>

definition mediaExtensions :: "jsstring list" where
  "mediaExtensions = [str ''mp4'', str ''webm'', str ''ogg'', str ''mp3'', str ''wav'',
     str ''m4a'', str ''flac'', str ''aac'']"

text \<open>A configuration of the routes module, for the examples.\<close>

definition exampleRoutes :: routes where
  "exampleRoutes = \<lparr> main = str ''https://example.com/'',
     financial_results = str ''financial-results'' \<rparr>"

section \<open>The language of a pattern\<close>

text \<open>
  For a pattern without assertions, the strings it matches, independent of where they
  stand in the input; \<open>rmatch\<close> is shown below to compute exactly this.
\<close>

fun anchor_free :: "rexp \<Rightarrow> bool" where
  "anchor_free (Seq a b) = (anchor_free a \<and> anchor_free b)"
| "anchor_free (Alt a b) = (anchor_free a \<and> anchor_free b)"
| "anchor_free (Star r) = anchor_free r"
| "anchor_free Bol = False"
| "anchor_free Eol = False"
| "anchor_free _ = True"

fun lang :: "bool \<Rightarrow> rexp \<Rightarrow> jsstring set" where
  "lang ic (Lit w) = {u. map (canonicalize ic) u = map (canonicalize ic) w}"
| "lang ic Dot = {[c] | c. \<not> isLineTerminator c}"
| "lang ic (Cls items) = {[c] | c. list_ex (\<lambda>i. citem_match ic i c) items}"
| "lang ic (Seq a b) = {u @ v | u v. u \<in> lang ic a \<and> v \<in> lang ic b}"
| "lang ic (Alt a b) = lang ic a \<union> lang ic b"
| "lang ic (Star r) = {concat us | us. \<forall>u \<in> set us. u \<in> lang ic r \<and> u \<noteq> []}"
| "lang ic Bol = {}"
| "lang ic Eol = {}"

text \<open>Splitting a string at the ampersands, with the piece read so far (reversed).\<close>

fun splitAmp :: "jsstring \<Rightarrow> jsstring \<Rightarrow> jsstring list" where
  "splitAmp acc [] = [rev acc]"
| "splitAmp acc (c # s) = (if c = 38 then rev acc # splitAmp [] s else splitAmp (c # acc) s)"

section \<open>Locator resolution: the base and the refinements\<close>


























text \<open>
  What lies outside the scheme, and the class refinement where a method has it.
\<close>

lemma testImage_without_testId: "\<not> truthy (testId c) \<Longrightarrow> testImage c = None"
  by (simp add: testImage_def)

lemma verifyDesing_without_element: "\<exists>e. verifyDesing None = Inl e"
  by (simp add: verifyDesing_def baseWithoutText_def emptyCriteria_def truthy_def)

lemma add_mono:
  "q \<in> set l \<Longrightarrow> q \<in> set (addId c b l)"
  "q \<in> set l \<Longrightarrow> q \<in> set (addClasses c b l)"
  "q \<in> set l \<Longrightarrow> q \<in> set (addRole c b l)"
  "q \<in> set l \<Longrightarrow> q \<in> set (addTag c b l)"
  "q \<in> set l \<Longrightarrow> q \<in> set (addText c b l)"
  "q \<in> set l \<Longrightarrow> q \<in> set (handleNth c l)"
  by (simp_all add: addId_def addClasses_def addRole_def addTag_def addText_def handleNth_def
      split: option.splits nthSel.splits)

lemma base_classes:
  "baseWithText msg c = Inr (l, B_classes) \<Longrightarrow> l = [LocatorSel (str ''.'' @ strOf (classes c))]"
  by (simp add: baseWithText_def split: if_splits)

lemma clickElement_applies_classes:
  assumes "truthy (classes c)" and "clickElement c = Inr l"
  shows "LocatorSel (str ''.'' @ strOf (classes c)) \<in> set l"
proof -
  from assms(2) obtain l0 b where base: "baseWithText msgA c = Inr (l0, b)"
    and l: "l = handleNth c (addText c b (addTag c b (addRole c b (addClasses c b (addId c b l0)))))"
    by (auto simp: clickElement_def split: sum.splits)
  have "LocatorSel (str ''.'' @ strOf (classes c)) \<in> set (addClasses c b (addId c b l0))"
  proof (cases "b = B_classes")
    case True
    then have "l0 = [LocatorSel (str ''.'' @ strOf (classes c))]" using base base_classes by blast
    then show ?thesis by (intro add_mono(2) add_mono(1)) simp
  next
    case False
    then show ?thesis using assms(1) by (simp add: addClasses_def)
  qed
  then show ?thesis unfolding l
    by (intro add_mono(6) add_mono(5) add_mono(4) add_mono(3))
qed

text \<open>
  C2, at the input where the code departs from it. With a test id and a class,
  \<open>TestVisible\<close> and \<open>TestExist\<close> resolve the test id alone: the class is dropped.
  \<open>clickElement\<close>, whose text is otherwise the same, chains the class selector on the
  base.
\<close>

theorem C2_TestVisible_drops_classes:
  "TestVisible (emptyCriteria \<lparr> testId := Some (str ''x''), classes := Some (str ''c'') \<rparr>)
     = Inr [GetByTestId (str ''x'')]
   \<and> TestExist (emptyCriteria \<lparr> testId := Some (str ''x''), classes := Some (str ''c'') \<rparr>)
     = Inr [GetByTestId (str ''x'')]
   \<and> clickElement (emptyCriteria \<lparr> testId := Some (str ''x''), classes := Some (str ''c'') \<rparr>)
     = Inr [GetByTestId (str ''x''), LocatorSel (str ''.c'')]"
  by (simp add: TestVisible_def TestExist_def clickElement_def baseWithText_def truthy_def
      strOf_def emptyCriteria_def addId_def addClasses_def addRole_def addTag_def addText_def
      handleNth_def str_def)


section \<open>The matcher computes the language\<close>

lemma stripPrefix_eq:
  "stripPrefix ic w s =
     (if length w \<le> length s \<and> map (canonicalize ic) (take (length w) s) = map (canonicalize ic) w
      then Some (drop (length w) s) else None)"
  by (induction ic w s rule: stripPrefix.induct) simp_all

lemma lang_Lit_iff:
  "u @ t = s \<and> u \<in> lang ic (Lit w) \<longleftrightarrow>
     length w \<le> length s \<and> map (canonicalize ic) (take (length w) s) = map (canonicalize ic) w
     \<and> u = take (length w) s \<and> t = drop (length w) s"
proof -
  have len: "map (canonicalize ic) u = map (canonicalize ic) w \<Longrightarrow> length u = length w"
    using map_eq_imp_length_eq by blast
  show ?thesis
  proof
    assume a: "u @ t = s \<and> u \<in> lang ic (Lit w)"
    then have l: "length u = length w" using len by simp
    from a l show "length w \<le> length s \<and> map (canonicalize ic) (take (length w) s) = map (canonicalize ic) w
     \<and> u = take (length w) s \<and> t = drop (length w) s"
      by auto
  next
    assume "length w \<le> length s \<and> map (canonicalize ic) (take (length w) s) = map (canonicalize ic) w
     \<and> u = take (length w) s \<and> t = drop (length w) s"
    then show "u @ t = s \<and> u \<in> lang ic (Lit w)" by simp
  qed
qed

lemma rmatch_Lit:
  "set (rmatch ic (Lit w) (n, s)) = {(n + length u, t) | u t. u \<in> lang ic (Lit w) \<and> s = u @ t}"
proof -
  have "{(n + length u, t) | u t. u \<in> lang ic (Lit w) \<and> s = u @ t}
      = {(n + length u, t) | u t. u @ t = s \<and> u \<in> lang ic (Lit w)}"
    by blast
  also have "\<dots> = {(n + length u, t) | u t. length w \<le> length s
       \<and> map (canonicalize ic) (take (length w) s) = map (canonicalize ic) w
       \<and> u = take (length w) s \<and> t = drop (length w) s}"
    unfolding lang_Lit_iff ..
  also have "\<dots> = set (rmatch ic (Lit w) (n, s))"
    by (simp add: stripPrefix_eq)
  finally show ?thesis by simp
qed


lemma rmatch_Dot:
  "set (rmatch ic Dot (n, s)) = {(n + length u, t) | u t. u \<in> lang ic Dot \<and> s = u @ t}"
  by (cases s) auto

lemma rmatch_Cls:
  "set (rmatch ic (Cls items) (n, s)) = {(n + length u, t) | u t. u \<in> lang ic (Cls items) \<and> s = u @ t}"
  by (cases s) auto

declare rmatch.simps(6) [simp del]

lemma rmatch_Star_unfold:
  "set (rmatch ic (Star r) (n, s)) = insert (n, s)
     (\<Union>p \<in> {p \<in> set (rmatch ic r (n, s)). length (snd p) < length s}. set (rmatch ic (Star r) p))"
  by (subst rmatch.simps(6)) auto

lemma rmatch_lang:
  "anchor_free r \<Longrightarrow>
   set (rmatch ic r (n, s)) = {(n + length u, t) | u t. u \<in> lang ic r \<and> s = u @ t}"
proof (induction ic r "(n, s)" arbitrary: n s rule: rmatch.induct)
  case (1 ic w n s)
  show ?case by (rule rmatch_Lit)
next
  case (2 ic n s)
  show ?case by (rule rmatch_Dot)
next
  case (3 ic items n s)
  show ?case by (rule rmatch_Cls)
next
  case (4 ic r1 r2 n s)
  have af: "anchor_free r1" "anchor_free r2" using 4(3) by simp_all
  note IH1 = 4(1)[OF af(1)]
  have IH2: "\<And>m t. (m, t) \<in> set (rmatch ic r1 (n, s)) \<Longrightarrow>
      set (rmatch ic r2 (m, t)) = {(m + length u, t') | u t'. u \<in> lang ic r2 \<and> t = u @ t'}"
    using 4(2) af(2) by simp
  show ?case
  proof (rule set_eqI, rule iffI)
    fix x assume "x \<in> set (rmatch ic (Seq r1 r2) (n, s))"
    then obtain m t where mt: "(m, t) \<in> set (rmatch ic r1 (n, s))" "x \<in> set (rmatch ic r2 (m, t))"
      by auto
    from mt(1) IH1 obtain u where u: "u \<in> lang ic r1" "s = u @ t" "m = n + length u" by auto
    from mt(2) IH2[OF mt(1)] obtain v t' where v: "v \<in> lang ic r2" "t = v @ t'" "x = (m + length v, t')"
      by auto
    have "u @ v \<in> lang ic (Seq r1 r2)" using u(1) v(1) by auto
    moreover have "s = (u @ v) @ t'" using u v by simp
    moreover have "x = (n + length (u @ v), t')" using u v by simp
    ultimately show "x \<in> {(n + length u, t) | u t. u \<in> lang ic (Seq r1 r2) \<and> s = u @ t}"
      by blast
  next
    fix x assume "x \<in> {(n + length u, t) | u t. u \<in> lang ic (Seq r1 r2) \<and> s = u @ t}"
    then obtain u v t where uv: "u \<in> lang ic r1" "v \<in> lang ic r2" "s = (u @ v) @ t"
        "x = (n + length (u @ v), t)"
      by auto
    have m1: "(n + length u, v @ t) \<in> set (rmatch ic r1 (n, s))"
      using IH1 uv by auto
    have "(n + length u + length v, t) \<in> set (rmatch ic r2 (n + length u, v @ t))"
      using IH2[OF m1] uv(2) by auto
    then show "x \<in> set (rmatch ic (Seq r1 r2) (n, s))"
      using m1 uv(4) by (auto simp: add.assoc intro!: bexI[of _ "(n + length u, v @ t)"])
  qed
next
  case (5 ic r1 r2 n s)
  have af: "anchor_free r1" "anchor_free r2" using 5(3) by simp_all
  show ?case using 5(1)[OF af(1)] 5(2)[OF af(2)] by auto
next
  case (6 ic r n s)
  have af: "anchor_free r" using 6(3) by simp
  note IH1 = 6(1)[OF af]
  have IH2: "\<And>m t. (m, t) \<in> set (rmatch ic r (n, s)) \<Longrightarrow> length t < length s \<Longrightarrow>
      set (rmatch ic (Star r) (m, t)) = {(m + length u, t') | u t'. u \<in> lang ic (Star r) \<and> t = u @ t'}"
    using 6(2) 6(3) by simp
  show ?case
  proof (rule set_eqI, rule iffI)
    fix x assume "x \<in> set (rmatch ic (Star r) (n, s))"
    then have "x = (n, s) \<or> (\<exists>m t. (m, t) \<in> set (rmatch ic r (n, s)) \<and> length t < length s
        \<and> x \<in> set (rmatch ic (Star r) (m, t)))"
      using rmatch_Star_unfold[of ic r n s] by auto
    then consider "x = (n, s)" | m t where "(m, t) \<in> set (rmatch ic r (n, s))" "length t < length s"
        "x \<in> set (rmatch ic (Star r) (m, t))"
      by blast
    then show "x \<in> {(n + length u, t) | u t. u \<in> lang ic (Star r) \<and> s = u @ t}"
    proof cases
      case 1
      have "[] \<in> lang ic (Star r)" by (simp, rule exI[of _ "[]"], simp)
      then show ?thesis using 1 by force
    next
      case 2
      from 2(1) IH1 obtain u where u: "u \<in> lang ic r" "s = u @ t" "m = n + length u" by auto
      from 2(2) u have une: "u \<noteq> []" by auto
      from IH2[OF 2(1,2)] 2(3) obtain v t' where v: "v \<in> lang ic (Star r)" "t = v @ t'" "x = (m + length v, t')"
        by auto
      from v(1) obtain us where us: "v = concat us" "\<forall>u \<in> set us. u \<in> lang ic r \<and> u \<noteq> []" by auto
      have "u @ v \<in> lang ic (Star r)"
        apply simp
        apply (rule exI[of _ "u # us"])
        using us u une by simp
      then show ?thesis using u v by force
    qed
  next
    fix x assume "x \<in> {(n + length u, t) | u t. u \<in> lang ic (Star r) \<and> s = u @ t}"
    then obtain w t where w: "w \<in> lang ic (Star r)" "s = w @ t" "x = (n + length w, t)" by auto
    from w(1) obtain us where us: "w = concat us" "\<forall>u \<in> set us. u \<in> lang ic r \<and> u \<noteq> []" by auto
    show "x \<in> set (rmatch ic (Star r) (n, s))"
    proof (cases us)
      case Nil
      then show ?thesis using us w rmatch_Star_unfold[of ic r n s] by simp
    next
      case (Cons u us')
      then have u: "u \<in> lang ic r" "u \<noteq> []" and us': "\<forall>u \<in> set us'. u \<in> lang ic r \<and> u \<noteq> []"
        using us by auto
      have s: "s = u @ (concat us' @ t)" using w us Cons by simp
      have m1: "(n + length u, concat us' @ t) \<in> set (rmatch ic r (n, s))"
        using IH1 u s by auto
      have lt: "length (concat us' @ t) < length s" using s u by simp
      have "concat us' \<in> lang ic (Star r)" using us' by auto
      then have "(n + length u + length (concat us'), t) \<in> set (rmatch ic (Star r) (n + length u, concat us' @ t))"
        using IH2[OF m1 lt] by auto
      moreover have "x = (n + length u + length (concat us'), t)" using w us Cons by simp
      ultimately have "x \<in> (\<Union>p \<in> {p \<in> set (rmatch ic r (n, s)). length (snd p) < length s}.
           set (rmatch ic (Star r) p))"
        using m1 lt by (intro UN_I[of "(n + length u, concat us' @ t)"]) simp_all
      then show ?thesis using rmatch_Star_unfold[of ic r n s] by simp
    qed
  qed
next
  case (7 ic n s)
  then show ?case by simp
next
  case (8 ic n s)
  then show ?case by simp
qed


lemma search_iff:
  "search ic r n s \<longleftrightarrow> (\<exists>k \<le> length s. rmatch ic r (n + k, drop k s) \<noteq> [])"
proof (induction s arbitrary: n)
  case Nil
  show ?case by simp
next
  case (Cons c s)
  have "(\<exists>k \<le> length (c # s). rmatch ic r (n + k, drop k (c # s)) \<noteq> []) \<longleftrightarrow>
        (rmatch ic r (n, c # s) \<noteq> [] \<or> (\<exists>k \<le> length s. rmatch ic r (Suc n + k, drop k s) \<noteq> []))"
  proof
    assume "\<exists>k \<le> length (c # s). rmatch ic r (n + k, drop k (c # s)) \<noteq> []"
    then obtain k where k: "k \<le> length (c # s)" "rmatch ic r (n + k, drop k (c # s)) \<noteq> []"
      by blast
    show "rmatch ic r (n, c # s) \<noteq> [] \<or> (\<exists>k \<le> length s. rmatch ic r (Suc n + k, drop k s) \<noteq> [])"
    proof (cases k)
      case 0
      then show ?thesis using k by simp
    next
      case (Suc j)
      then have "j \<le> length s" "rmatch ic r (Suc n + j, drop j s) \<noteq> []" using k by simp_all
      then show ?thesis by blast
    qed
  next
    assume "rmatch ic r (n, c # s) \<noteq> [] \<or> (\<exists>k \<le> length s. rmatch ic r (Suc n + k, drop k s) \<noteq> [])"
    then show "\<exists>k \<le> length (c # s). rmatch ic r (n + k, drop k (c # s)) \<noteq> []"
    proof
      assume "rmatch ic r (n, c # s) \<noteq> []"
      then show ?thesis by (intro exI[of _ 0]) simp
    next
      assume "\<exists>k \<le> length s. rmatch ic r (Suc n + k, drop k s) \<noteq> []"
      then obtain j where "j \<le> length s" "rmatch ic r (Suc n + j, drop j s) \<noteq> []" by blast
      then show ?thesis by (intro exI[of _ "Suc j"]) simp
    qed
  qed
  then show ?case using Cons.IH[of "Suc n"] by simp
qed

lemma test_lang:
  assumes "anchor_free (source re)"
  shows "test re s \<longleftrightarrow>
         (\<exists>pre u post. s = pre @ u @ post \<and> u \<in> lang (ignoreCase re) (source re))"
proof
  assume "test re s"
  then obtain k where k: "k \<le> length s"
      "rmatch (ignoreCase re) (source re) (0 + k, drop k s) \<noteq> []"
    unfolding test_def search_iff by blast
  then have "set (rmatch (ignoreCase re) (source re) (0 + k, drop k s)) \<noteq> {}" by simp
  then obtain u t where "u \<in> lang (ignoreCase re) (source re)" "drop k s = u @ t"
    unfolding rmatch_lang[OF assms] by blast
  then have "s = take k s @ u @ t \<and> u \<in> lang (ignoreCase re) (source re)"
    by (metis append_take_drop_id)
  then show "\<exists>pre u post. s = pre @ u @ post \<and> u \<in> lang (ignoreCase re) (source re)"
    by blast
next
  assume "\<exists>pre u post. s = pre @ u @ post \<and> u \<in> lang (ignoreCase re) (source re)"
  then obtain pre u post where s: "s = pre @ u @ post" and u: "u \<in> lang (ignoreCase re) (source re)"
    by blast
  have "(0 + length pre + length u, post)
      \<in> set (rmatch (ignoreCase re) (source re) (0 + length pre, drop (length pre) s))"
    unfolding rmatch_lang[OF assms] using s u by auto
  then have "rmatch (ignoreCase re) (source re) (0 + length pre, drop (length pre) s) \<noteq> []"
    by auto
  moreover have "length pre \<le> length s" using s by simp
  ultimately show "test re s" unfolding test_def search_iff by blast
qed

lemma canonicalize_False: "canonicalize False = (\<lambda>c. c)"
  by (rule ext) (simp add: canonicalize_def)

lemma lang_Lit_False: "lang False (Lit w) = {w}"
  by (simp add: canonicalize_False)

lemma concat_singletons: "concat (map (\<lambda>c. [c]) u) = u"
  by (induction u) simp_all

lemma lang_Star_Dot: "lang ic (Star Dot) = {u. \<forall>c \<in> set u. \<not> isLineTerminator c}"
proof (rule set_eqI, rule iffI)
  fix u assume "u \<in> lang ic (Star Dot)"
  then obtain us where us: "u = concat us" "\<forall>v \<in> set us. v \<in> lang ic Dot \<and> v \<noteq> []"
    by auto
  have "\<not> isLineTerminator c" if "c \<in> set u" for c
  proof -
    from that us(1) obtain v where v: "v \<in> set us" "c \<in> set v" by auto
    then have "v \<in> lang ic Dot" using us(2) by blast
    then obtain d where "v = [d]" "\<not> isLineTerminator d" by auto
    then show ?thesis using v(2) by simp
  qed
  then show "u \<in> {u. \<forall>c \<in> set u. \<not> isLineTerminator c}" by simp
next
  fix u assume "u \<in> {u. \<forall>c \<in> set u. \<not> isLineTerminator c}"
  then have a: "\<forall>c \<in> set u. \<not> isLineTerminator c" by simp
  have "\<forall>v \<in> set (map (\<lambda>c. [c]) u). v \<in> lang ic Dot \<and> v \<noteq> []" using a by auto
  then have "concat (map (\<lambda>c. [c]) u) \<in> lang ic (Star Dot)"
    unfolding lang.simps by blast
  then show "u \<in> lang ic (Star Dot)" by (simp only: concat_singletons)
qed


section \<open>The classifier: order of the rules\<close>

lemmas is_defs = isVideo_def isGA_def isYT_def isRecaptcha_def isException_def isListed_def

text \<open>What first-match evaluation means: the first rule that holds decides, and the default
  is returned when none holds.\<close>

lemma firstMatch_first:
  "k < length rules \<Longrightarrow> fst (rules ! k) x \<Longrightarrow> \<forall>j < k. \<not> fst (rules ! j) x \<Longrightarrow>
   firstMatch rules dflt x = snd (rules ! k)"
proof (induction rules dflt x arbitrary: k rule: firstMatch.induct)
  case (1 dflt x)
  then show ?case by simp
next
  case (2 p t rules dflt x)
  show ?case
  proof (cases k)
    case 0
    then show ?thesis using 2(3) by simp
  next
    case (Suc i)
    then have np: "\<not> p x" using 2(4) by auto
    have "i < length rules" "fst (rules ! i) x" "\<forall>j < i. \<not> fst (rules ! j) x"
      using 2(2,3,4) Suc by auto
    then have "firstMatch rules dflt x = snd (rules ! i)" using 2(1)[OF np] by blast
    then show ?thesis using np Suc by simp
  qed
qed

lemma firstMatch_none:
  "\<forall>j < length rules. \<not> fst (rules ! j) x \<Longrightarrow> firstMatch rules dflt x = dflt"
proof (induction rules dflt x rule: firstMatch.induct)
  case (1 dflt x)
  then show ?case by simp
next
  case (2 p t rules dflt x)
  then have np: "\<not> p x" by auto
  have "\<forall>j < length rules. \<not> fst (rules ! j) x" using 2(2) by auto
  then show ?case using 2(1)[OF np] np by simp
qed

text \<open>
  C3. The classifier is the first-match evaluation of the six rules Video, GA, YT,
  recaptcha (Ignore), Exception, exact-match lists (Ignore), with the default NONE. In
  particular a URL that matches the media-file pattern is Video whatever else it
  matches, and when one of the five pattern rules matches, the result does not depend on
  the exact-match lists or on the page.
\<close>

theorem C3_first_match_wins:
  "LinkType rt url page = firstMatch (specRules rt) NONE (url, page)
   \<and> (isVideo url \<longrightarrow> LinkType rt url page = Video)
   \<and> (isVideo url \<or> isGA url \<or> isYT url \<or> isRecaptcha url \<or> isException url
        \<longrightarrow> LinkType rt url page = LinkType rt' url page')"
  by (simp add: LinkType_def specRules_def is_defs)

text \<open>Evaluating the classifier on a concrete URL.\<close>

lemmas eval_defs =
  str_def test_def Opt_def Plus_def isDigit_def isWordChar_def isLineTerminator_def
  canonicalize_def rmatch.simps(6)

lemmas pattern_defs =
  videoPattern_def gaPatterns_def youtubePatterns_def recaptchaPatterns_def exceptPattern_def

lemma list_ex3: "list_ex P [a, b, c] = (P a \<or> P b \<or> P c)"
  by simp

lemma isGA_unfold: "isGA url = (test (gaPatterns ! 0) url \<or> test (gaPatterns ! 1) url)"
  by (simp add: isGA_def gaPatterns_def)

lemma isYT_unfold: "isYT url = (test (youtubePatterns ! 0) url \<or> test (youtubePatterns ! 1) url)"
  by (simp add: isYT_def youtubePatterns_def)

lemma isRecaptcha_unfold:
  "isRecaptcha url = (test (recaptchaPatterns ! 0) url \<or> test (recaptchaPatterns ! 1) url
      \<or> test (recaptchaPatterns ! 2) url)"
  by (simp add: isRecaptcha_def recaptchaPatterns_def)

lemma LinkType_is:
  "LinkType rt url page =
    (if isVideo url then Video else if isGA url then GA else if isYT url then YT
     else if isRecaptcha url then Ignore else if isException url then Exception
     else if isListed rt url page then Ignore else NONE)"
  by (simp add: LinkType_def is_defs)

theorem C3_witness:
  "isRecaptcha (str ''https://www.google.com/recaptcha/a.mp4'')
   \<and> LinkType exampleRoutes (str ''https://www.google.com/recaptcha/a.mp4'') (str ''p'') = Video"
proof -
  have v: "isVideo (str ''https://www.google.com/recaptcha/a.mp4'')"
    by (simp add: isVideo_def videoPattern_def eval_defs)
  have r: "isRecaptcha (str ''https://www.google.com/recaptcha/a.mp4'')"
    unfolding isRecaptcha_unfold by (simp add: recaptchaPatterns_def eval_defs)
  have "isVideo (str ''https://www.google.com/recaptcha/a.mp4'') \<longrightarrow>
      LinkType exampleRoutes (str ''https://www.google.com/recaptcha/a.mp4'') (str ''p'') = Video"
    using C3_first_match_wins[where rt = exampleRoutes and rt' = exampleRoutes
        and url = "str ''https://www.google.com/recaptcha/a.mp4''" and page = "str ''p''"
        and page' = "str ''p''"]
    by blast
  then show ?thesis using v r by blast
qed

text \<open>
  C7. The classifier is a total function into the six tags (the matcher terminates on
  every pattern and input), and it returns NONE when the URL matches none of the
  patterns and neither exact-match list has an entry for the URL or the page.
\<close>

theorem C7_total_default:
  "LinkType rt url page \<in> {Video, GA, YT, Ignore, Exception, NONE}
   \<and> (\<not> isVideo url \<and> \<not> isGA url \<and> \<not> isYT url \<and> \<not> isRecaptcha url \<and> \<not> isException url
        \<and> url \<notin> set (exceptUrls rt) \<and> page \<notin> set (exceptPages rt)
        \<longrightarrow> LinkType rt url page = NONE)"
proof -
  have "LinkType rt url page \<in> {Video, GA, YT, Ignore, Exception, NONE}"
    by (cases "LinkType rt url page") simp_all
  moreover have "isListed rt url page \<longleftrightarrow> url \<in> set (exceptUrls rt) \<or> page \<in> set (exceptPages rt)"
    by (auto simp: isListed_def list_ex_iff)
  ultimately show ?thesis by (simp add: LinkType_is)
qed

lemma plain_url_no_pattern:
  "\<not> isVideo (str ''https://example.com/api/data'')"
  "\<not> isGA (str ''https://example.com/api/data'')"
  "\<not> isYT (str ''https://example.com/api/data'')"
  "\<not> isRecaptcha (str ''https://example.com/api/data'')"
  "\<not> isException (str ''https://example.com/api/data'')"
  unfolding isGA_unfold isYT_unfold isRecaptcha_unfold isVideo_def isException_def
  by (simp_all add: pattern_defs eval_defs)

theorem C7_witness:
  "LinkType exampleRoutes (str ''https://example.com/api/data'') (str ''https://example.com/home'')
     = NONE"
proof -
  have "str ''https://example.com/api/data'' \<notin> set (exceptUrls exampleRoutes)"
    by (simp add: exceptUrls_def exampleRoutes_def str_def)
  moreover have "str ''https://example.com/home'' \<notin> set (exceptPages exampleRoutes)"
    by (simp add: exceptPages_def exampleRoutes_def str_def)
  ultimately show ?thesis
    using C7_total_default[of exampleRoutes "str ''https://example.com/api/data''"
        "str ''https://example.com/home''"] plain_url_no_pattern
    by simp
qed


section \<open>The financial-results page\<close>

text \<open>
  C1, as the code has it. On the financial-results page the classifier returns the tag
  of the first of the rules Video, GA, YT, recaptcha (Ignore), Exception that matches
  the request URL, and Ignore when none of them matches: the page rule is the last rule.
  So it returns Ignore exactly when the request URL matches none of the Video, GA and YT
  patterns and either matches a recaptcha pattern or does not match the Exception
  pattern, and a request that one of the rules Video, GA, YT, Exception is the first to
  match keeps that rule's tag.
\<close>

theorem C1_financial_page:
  assumes "page = main rt @ financial_results rt"
  shows "(LinkType rt url page = Ignore \<longleftrightarrow>
           \<not> isVideo url \<and> \<not> isGA url \<and> \<not> isYT url \<and> (isRecaptcha url \<or> \<not> isException url))
       \<and> (isVideo url \<longrightarrow> LinkType rt url page = Video)
       \<and> (\<not> isVideo url \<and> isGA url \<longrightarrow> LinkType rt url page = GA)
       \<and> (\<not> isVideo url \<and> \<not> isGA url \<and> isYT url \<longrightarrow> LinkType rt url page = YT)
       \<and> (\<not> isVideo url \<and> \<not> isGA url \<and> \<not> isYT url \<and> \<not> isRecaptcha url \<and> isException url
            \<longrightarrow> LinkType rt url page = Exception)
       \<and> LinkType rt url page = firstMatch (take 5 (specRules rt)) Ignore (url, page)"
  using assms by (simp add: LinkType_is isListed_def exceptPages_def specRules_def)

theorem C1_witness:
  "LinkType exampleRoutes (str ''https://example.com/api/data'')
     (str ''https://example.com/financial-results'') = Ignore"
proof -
  have "str ''https://example.com/financial-results''
      = main exampleRoutes @ financial_results exampleRoutes"
    by (simp add: exampleRoutes_def str_def)
  from C1_financial_page[OF this, of "str ''https://example.com/api/data''"]
  have "LinkType exampleRoutes (str ''https://example.com/api/data'')
      (str ''https://example.com/financial-results'') = Ignore \<longleftrightarrow>
      \<not> isVideo (str ''https://example.com/api/data'') \<and> \<not> isGA (str ''https://example.com/api/data'')
      \<and> \<not> isYT (str ''https://example.com/api/data'')
      \<and> (isRecaptcha (str ''https://example.com/api/data'')
          \<or> \<not> isException (str ''https://example.com/api/data''))"
    by blast
  then show ?thesis using plain_url_no_pattern by simp
qed

text \<open>
  C1 as the specification words it does not hold: a media file requested on the
  financial-results page is classified Video.
\<close>

theorem C1_counterexample:
  "str ''https://example.com/financial-results''
     = main exampleRoutes @ financial_results exampleRoutes
   \<and> LinkType exampleRoutes (str ''https://example.com/intro.mp4'')
     (str ''https://example.com/financial-results'') = Video"
proof -
  have "isVideo (str ''https://example.com/intro.mp4'')"
    by (simp add: isVideo_def videoPattern_def eval_defs)
  then show ?thesis by (simp add: LinkType_is exampleRoutes_def str_def)
qed

section \<open>The recaptcha patterns\<close>

lemma test_Lit_StarDot:
  "test \<lparr> source = Seq (Lit w) (Star Dot), ignoreCase = False \<rparr> s
     \<longleftrightarrow> (\<exists>pre v post. s = pre @ w @ v @ post \<and> (\<forall>c \<in> set v. \<not> isLineTerminator c))"
proof -
  have "test \<lparr> source = Seq (Lit w) (Star Dot), ignoreCase = False \<rparr> s
     \<longleftrightarrow> (\<exists>pre u post. s = pre @ u @ post \<and> u \<in> lang False (Seq (Lit w) (Star Dot)))"
    using test_lang[of "\<lparr> source = Seq (Lit w) (Star Dot), ignoreCase = False \<rparr>" s] by simp
  also have "\<dots> \<longleftrightarrow> (\<exists>pre v post. s = pre @ w @ v @ post \<and> (\<forall>c \<in> set v. \<not> isLineTerminator c))"
  proof
    assume "\<exists>pre u post. s = pre @ u @ post \<and> u \<in> lang False (Seq (Lit w) (Star Dot))"
    then obtain pre u post where s: "s = pre @ u @ post"
        and u: "u \<in> lang False (Seq (Lit w) (Star Dot))"
      by blast
    from u obtain v where "u = w @ v" "\<forall>c \<in> set v. \<not> isLineTerminator c"
      unfolding lang.simps(4) lang_Lit_False lang_Star_Dot by blast
    then show "\<exists>pre v post. s = pre @ w @ v @ post \<and> (\<forall>c \<in> set v. \<not> isLineTerminator c)"
      using s by (intro exI[of _ pre] exI[of _ v] exI[of _ post]) simp
  next
    assume "\<exists>pre v post. s = pre @ w @ v @ post \<and> (\<forall>c \<in> set v. \<not> isLineTerminator c)"
    then obtain pre v post where s: "s = pre @ w @ v @ post"
        and v: "\<forall>c \<in> set v. \<not> isLineTerminator c"
      by blast
    have "w @ v \<in> lang False (Seq (Lit w) (Star Dot))"
      unfolding lang.simps(4) lang_Lit_False lang_Star_Dot using v by blast
    then show "\<exists>pre u post. s = pre @ u @ post \<and> u \<in> lang False (Seq (Lit w) (Star Dot))"
      using s by (intro exI[of _ pre] exI[of _ "w @ v"] exI[of _ post]) simp
  qed
  finally show ?thesis .
qed

lemma test_Lit_StarDot_contains:
  "test \<lparr> source = Seq (Lit w) (Star Dot), ignoreCase = False \<rparr> s
     \<longleftrightarrow> (\<exists>pre post. s = pre @ w @ post)"
proof -
  have "(\<exists>pre v post. s = pre @ w @ v @ post \<and> (\<forall>c \<in> set v. \<not> isLineTerminator c))
      \<longleftrightarrow> (\<exists>pre post. s = pre @ w @ post)"
  proof
    assume "\<exists>pre v post. s = pre @ w @ v @ post \<and> (\<forall>c \<in> set v. \<not> isLineTerminator c)"
    then show "\<exists>pre post. s = pre @ w @ post" by blast
  next
    assume "\<exists>pre post. s = pre @ w @ post"
    then obtain pre post where "s = pre @ w @ [] @ post" by auto
    then show "\<exists>pre v post. s = pre @ w @ v @ post \<and> (\<forall>c \<in> set v. \<not> isLineTerminator c)"
      by (intro exI[of _ pre] exI[of _ "[]"] exI[of _ post]) simp
  qed
  then show ?thesis unfolding test_Lit_StarDot .
qed

lemma recaptcha_first_subsumes:
  "isRecaptcha url \<longleftrightarrow> test (hd recaptchaPatterns) url"
proof -
  let ?w = "str ''https://www.google.com/recaptcha/''"
  have a: "str ''https://www.google.com/recaptcha/api2/'' = ?w @ str ''api2/''"
    and e: "str ''https://www.google.com/recaptcha/enterprise/'' = ?w @ str ''enterprise/''"
    by (simp_all add: str_def)
  have 2: "(\<exists>pre post. url = pre @ (?w @ str ''api2/'') @ post) \<Longrightarrow> \<exists>pre post. url = pre @ ?w @ post"
    by (metis append.assoc)
  have 3: "(\<exists>pre post. url = pre @ (?w @ str ''enterprise/'') @ post) \<Longrightarrow> \<exists>pre post. url = pre @ ?w @ post"
    by (metis append.assoc)
  show ?thesis
    unfolding isRecaptcha_def recaptchaPatterns_def list_ex3 list.sel test_Lit_StarDot_contains a e
    using 2 3 by blast
qed

text \<open>
  C10. Keeping only the first recaptcha pattern changes nothing: the classifier with the
  single pattern returns the same tag on every input.
\<close>

theorem C10_recaptcha_redundant:
  "LinkType_firstRecaptchaOnly rt url page = LinkType rt url page"
proof -
  have "list_ex (\<lambda>pattern. test pattern url) [hd recaptchaPatterns]
      = list_ex (\<lambda>pattern. test pattern url) recaptchaPatterns"
    using recaptcha_first_subsumes[of url] by (simp add: isRecaptcha_def)
  then show ?thesis
    unfolding LinkType_firstRecaptchaOnly_def LinkType_def by simp
qed

theorem C10_witness:
  "LinkType_firstRecaptchaOnly exampleRoutes (str ''https://www.google.com/recaptcha/api2/a'')
     (str ''p'') = Ignore
   \<and> LinkType exampleRoutes (str ''https://www.google.com/recaptcha/api2/a'') (str ''p'') = Ignore"
proof -
  have "\<not> isVideo (str ''https://www.google.com/recaptcha/api2/a'')"
    by (simp add: isVideo_def videoPattern_def eval_defs)
  moreover have "\<not> isGA (str ''https://www.google.com/recaptcha/api2/a'')"
    unfolding isGA_unfold by (simp add: gaPatterns_def eval_defs)
  moreover have "\<not> isYT (str ''https://www.google.com/recaptcha/api2/a'')"
    unfolding isYT_unfold by (simp add: youtubePatterns_def eval_defs)
  moreover have "isRecaptcha (str ''https://www.google.com/recaptcha/api2/a'')"
    unfolding isRecaptcha_unfold by (simp add: recaptchaPatterns_def eval_defs)
  ultimately have "LinkType exampleRoutes (str ''https://www.google.com/recaptcha/api2/a'')
      (str ''p'') = Ignore"
    by (simp add: LinkType_is)
  then show ?thesis
    using C10_recaptcha_redundant[of exampleRoutes "str ''https://www.google.com/recaptcha/api2/a''"
        "str ''p''"]
    by simp
qed


section \<open>Media files\<close>

lemma in_set_nonempty: "x \<in> set xs \<Longrightarrow> xs \<noteq> []"
  by auto

lemma rmatch_SeqI:
  "p \<in> set (rmatch ic a (n, s)) \<Longrightarrow> x \<in> set (rmatch ic b p) \<Longrightarrow>
   x \<in> set (rmatch ic (Seq a b) (n, s))"
  by auto

lemma seq_step:
  assumes "anchor_free a" and "u \<in> lang ic a" and "\<forall>n. rmatch ic b (n, t) \<noteq> []"
  shows "\<forall>n. rmatch ic (Seq a b) (n, u @ t) \<noteq> []"
proof
  fix n
  have m: "(n + length u, t) \<in> set (rmatch ic a (n, u @ t))"
    unfolding rmatch_lang[OF assms(1)] using assms(2) by blast
  from assms(3) obtain x where "x \<in> set (rmatch ic b (n + length u, t))"
    by (meson last_in_set)
  then have "x \<in> set (rmatch ic (Seq a b) (n, u @ t))" using m by (rule rmatch_SeqI[rotated])
  then show "rmatch ic (Seq a b) (n, u @ t) \<noteq> []" by (rule in_set_nonempty)
qed

lemma search_first: "rmatch ic r (n, s) \<noteq> [] \<Longrightarrow> search ic r n s"
  by (cases s) simp_all

lemma lang_Opt: "lang ic (Opt r) = insert [] (lang ic r)"
  by (auto simp: Opt_def canonicalize_def)

lemma lang_media:
  "ext \<in> set mediaExtensions \<Longrightarrow>
   ext \<in> lang False (alts [Lit (str ''mp4''), Lit (str ''webm''), Lit (str ''ogg''),
      Lit (str ''mp3''), Lit (str ''wav''), Lit (str ''m4a''), Lit (str ''flac''),
      Lit (str ''aac'')])"
  unfolding mediaExtensions_def alts.simps lang.simps(5) lang_Lit_False by auto

text \<open>
  C8. A URL made of the scheme http or https, \<open>://\<close>, any text, a dot, one of the eight
  media extensions and then nothing or a query string (a question mark and any text) is
  classified Video. "Any text" is text without a line terminator, which the dot of the
  pattern does not match and a URL does not contain.
\<close>

theorem C8_media_is_video:
  assumes "scheme = str ''http'' \<or> scheme = str ''https''"
    and "ext \<in> set mediaExtensions"
    and "\<forall>c \<in> set body. \<not> isLineTerminator c"
    and "query = [] \<or> (\<exists>q. query = str ''?'' @ q \<and> (\<forall>c \<in> set q. \<not> isLineTerminator c))"
  shows "LinkType rt (scheme @ str ''://'' @ body @ str ''.'' @ ext @ query) page = Video"
proof -
  let ?q = "Opt (Seq (Lit (str ''?'')) (Star Dot))"
  let ?e = "alts [Lit (str ''mp4''), Lit (str ''webm''), Lit (str ''ogg''), Lit (str ''mp3''),
            Lit (str ''wav''), Lit (str ''m4a''), Lit (str ''flac''), Lit (str ''aac'')]"
  obtain s where s: "s \<in> lang False (Opt (Lit (str ''s'')))" "scheme = str ''http'' @ s"
  proof (cases "scheme = str ''http''")
    case True
    then show ?thesis using that[of "[]"] by (simp add: lang_Opt)
  next
    case False
    then have "scheme = str ''http'' @ str ''s''" using assms(1) by (simp add: str_def)
    then show ?thesis using that[of "str ''s''"] by (simp add: lang_Opt lang_Lit_False)
  qed
  have q: "query \<in> lang False ?q"
  proof (cases "query = []")
    case True
    then show ?thesis by (simp add: lang_Opt)
  next
    case False
    then obtain q' where "query = str ''?'' @ q'" "\<forall>c \<in> set q'. \<not> isLineTerminator c"
      using assms(4) by blast
    then have "query \<in> lang False (Seq (Lit (str ''?'')) (Star Dot))"
      unfolding lang.simps(4) lang_Lit_False lang_Star_Dot by blast
    then show ?thesis by (simp add: lang_Opt)
  qed
  have b: "body \<in> lang False (Star Dot)" unfolding lang_Star_Dot using assms(3) by simp
  have af: "anchor_free ?q" "anchor_free ?e" "anchor_free (Opt (Lit (str ''s'')))"
    by (simp_all add: Opt_def)
  have 8: "\<forall>n. rmatch False Eol (n, []) \<noteq> []" by simp
  have 7: "\<forall>n. rmatch False (Seq ?q Eol) (n, query @ []) \<noteq> []"
    by (rule seq_step[OF af(1) q 8])
  have 6: "\<forall>n. rmatch False (Seq ?e (Seq ?q Eol)) (n, ext @ query @ []) \<noteq> []"
    by (rule seq_step[OF af(2) lang_media[OF assms(2)] 7])
  have 5: "\<forall>n. rmatch False (Seq (Lit (str ''.'')) (Seq ?e (Seq ?q Eol)))
      (n, str ''.'' @ ext @ query @ []) \<noteq> []"
    by (rule seq_step[OF _ _ 6]) (simp_all add: lang_Lit_False)
  have 4: "\<forall>n. rmatch False (Seq (Star Dot) (Seq (Lit (str ''.'')) (Seq ?e (Seq ?q Eol))))
      (n, body @ str ''.'' @ ext @ query @ []) \<noteq> []"
    by (rule seq_step[OF _ b 5]) simp
  have 3: "\<forall>n. rmatch False (Seq (Lit (str ''://'')) (Seq (Star Dot) (Seq (Lit (str ''.''))
      (Seq ?e (Seq ?q Eol))))) (n, str ''://'' @ body @ str ''.'' @ ext @ query @ []) \<noteq> []"
    by (rule seq_step[OF _ _ 4]) (simp_all add: lang_Lit_False)
  have 2: "\<forall>n. rmatch False (Seq (Opt (Lit (str ''s''))) (Seq (Lit (str ''://'')) (Seq (Star Dot)
      (Seq (Lit (str ''.'')) (Seq ?e (Seq ?q Eol))))))
      (n, s @ str ''://'' @ body @ str ''.'' @ ext @ query @ []) \<noteq> []"
    by (rule seq_step[OF af(3) s(1) 3])
  have 1: "\<forall>n. rmatch False (Seq (Lit (str ''http'')) (Seq (Opt (Lit (str ''s'')))
      (Seq (Lit (str ''://'')) (Seq (Star Dot) (Seq (Lit (str ''.'')) (Seq ?e (Seq ?q Eol)))))))
      (n, str ''http'' @ s @ str ''://'' @ body @ str ''.'' @ ext @ query @ []) \<noteq> []"
    by (rule seq_step[OF _ _ 2]) (simp_all add: lang_Lit_False)
  have src: "source videoPattern = Seq (Lit (str ''http'')) (Seq (Opt (Lit (str ''s'')))
      (Seq (Lit (str ''://'')) (Seq (Star Dot) (Seq (Lit (str ''.'')) (Seq ?e (Seq ?q Eol))))))"
    by (simp add: videoPattern_def)
  have url: "scheme @ str ''://'' @ body @ str ''.'' @ ext @ query
      = str ''http'' @ s @ str ''://'' @ body @ str ''.'' @ ext @ query @ []"
    using s(2) by simp
  have ic: "ignoreCase videoPattern = False" by (simp add: videoPattern_def)
  have "rmatch False (source videoPattern)
      (0, str ''http'' @ s @ str ''://'' @ body @ str ''.'' @ ext @ query @ []) \<noteq> []"
    unfolding src using 1 by blast
  then have "search False (source videoPattern) 0
      (str ''http'' @ s @ str ''://'' @ body @ str ''.'' @ ext @ query @ [])"
    by (rule search_first)
  then have "test videoPattern (scheme @ str ''://'' @ body @ str ''.'' @ ext @ query)"
    unfolding test_def ic url .
  then show ?thesis by (simp add: LinkType_def)
qed

theorem C8_witness:
  "LinkType exampleRoutes (str ''https://cdn.example.com/intro.webm?t=10'') (str ''p'') = Video"
proof -
  have 1: "str ''https'' = str ''http'' \<or> str ''https'' = str ''https''" by simp
  have 2: "str ''webm'' \<in> set mediaExtensions" by (simp add: mediaExtensions_def)
  have 3: "\<forall>c \<in> set (str ''cdn.example.com/intro''). \<not> isLineTerminator c"
    by (simp add: str_def isLineTerminator_def)
  have 4: "str ''?t=10'' = [] \<or> (\<exists>q. str ''?t=10'' = str ''?'' @ q \<and> (\<forall>c \<in> set q. \<not> isLineTerminator c))"
    by (rule disjI2, rule exI[of _ "str ''t=10''"]) (simp add: str_def isLineTerminator_def)
  have "str ''https://cdn.example.com/intro.webm?t=10''
      = str ''https'' @ str ''://'' @ str ''cdn.example.com/intro'' @ str ''.'' @ str ''webm''
        @ str ''?t=10''"
    by (simp add: str_def)
  then show ?thesis
    using C8_media_is_video[OF 1 2 3 4, of exampleRoutes "str ''p''"] by simp
qed


section \<open>The beacon pattern\<close>

lemma exceptPattern_anchor_free: "anchor_free (source exceptPattern)"
  by (simp add: exceptPattern_def Plus_def)

lemma exceptPattern_ic: "ignoreCase exceptPattern = False"
  by (simp add: exceptPattern_def)

lemma matchesWhole_lang:
  assumes "anchor_free (source re)"
  shows "matchesWhole re u \<longleftrightarrow> u \<in> lang (ignoreCase re) (source re)"
proof -
  have "matchesWhole re u \<longleftrightarrow>
      (\<exists>p \<in> set (rmatch (ignoreCase re) (source re) (0, u)). snd p = [])"
    by (simp add: matchesWhole_def list_ex_iff)
  also have "\<dots> \<longleftrightarrow> (\<exists>p \<in> {(0 + length v, t) | v t. v \<in> lang (ignoreCase re) (source re) \<and> u = v @ t}.
      snd p = [])"
    unfolding rmatch_lang[OF assms] ..
  also have "\<dots> \<longleftrightarrow> u \<in> lang (ignoreCase re) (source re)"
    by auto
  finally show ?thesis .
qed

text \<open>
  C9. The beacon pattern is not anchored: a URL that contains, anywhere, a string the
  pattern matches as a whole (the canonical beacon URL for one, so also that URL with
  further parameters appended) is classified Exception unless one of the earlier rules
  (Video, GA, YT, recaptcha) matches it.
\<close>

theorem C9_beacon_unanchored:
  assumes "matchesWhole exceptPattern u"
    and "\<not> isVideo (pre @ u @ post)" and "\<not> isGA (pre @ u @ post)"
    and "\<not> isYT (pre @ u @ post)" and "\<not> isRecaptcha (pre @ u @ post)"
  shows "LinkType rt (pre @ u @ post) page = Exception"
proof -
  have "u \<in> lang (ignoreCase exceptPattern) (source exceptPattern)"
    using assms(1) matchesWhole_lang[OF exceptPattern_anchor_free] by simp
  then have "test exceptPattern (pre @ u @ post)"
    unfolding test_lang[OF exceptPattern_anchor_free] by blast
  then show ?thesis using assms(2-5) by (simp add: LinkType_is isException_def)
qed

lemma canonical_matchesWhole: "matchesWhole exceptPattern canonicalBeacon"
  by (simp add: matchesWhole_def canonicalBeacon_def exceptPattern_def eval_defs)

lemma extended_beacon_no_earlier:
  "\<not> isVideo (canonicalBeacon @ str ''&extra=1'')"
  "\<not> isGA (canonicalBeacon @ str ''&extra=1'')"
  "\<not> isYT (canonicalBeacon @ str ''&extra=1'')"
  "\<not> isRecaptcha (canonicalBeacon @ str ''&extra=1'')"
  unfolding isGA_unfold isYT_unfold isRecaptcha_unfold isVideo_def
  by (simp_all add: canonicalBeacon_def pattern_defs eval_defs)

theorem C9_witness:
  "LinkType exampleRoutes (canonicalBeacon @ str ''&extra=1'') (str ''p'') = Exception"
  using C9_beacon_unanchored[of canonicalBeacon "[]" "str ''&extra=1''" exampleRoutes "str ''p''"]
    canonical_matchesWhole extended_beacon_no_earlier
  by simp

subsection \<open>Reordering and omitting parameters\<close>

lemma lang_Star_Cls:
  assumes "u \<in> lang ic (Star (Cls items))" and "c \<in> set u"
  shows "list_ex (\<lambda>i. citem_match ic i c) items"
proof -
  from assms(1) obtain us where us: "u = concat us"
      "\<forall>v \<in> set us. v \<in> lang ic (Cls items) \<and> v \<noteq> []"
    by auto
  from assms(2) us(1) obtain v where v: "v \<in> set us" "c \<in> set v" by auto
  then have "v \<in> lang ic (Cls items)" using us(2) by blast
  then obtain d where "v = [d]" "list_ex (\<lambda>i. citem_match ic i d) items" by auto
  then show ?thesis using v(2) by simp
qed

lemma lang_Plus_Cls:
  assumes "u \<in> lang False (Plus (Cls items))"
    and "\<not> list_ex (\<lambda>i. citem_match False i 38) items"
  shows "u \<noteq> [] \<and> 38 \<notin> set u"
proof -
  from assms(1) obtain x y where u: "u = x @ y" and x: "x \<in> lang False (Cls items)"
      and y: "y \<in> lang False (Star (Cls items))"
    unfolding Plus_def lang.simps(4) by blast
  from x obtain d where d: "x = [d]" "list_ex (\<lambda>i. citem_match False i d) items" by auto
  have "38 \<notin> set y" using lang_Star_Cls[OF y] assms(2) by blast
  moreover have "d \<noteq> 38" using d(2) assms(2) by auto
  ultimately show ?thesis using u d(1) by simp
qed

lemma lang_field:
  assumes "u \<in> lang False (Seq (Lit k) (Seq (Plus (Cls items)) r))"
    and "\<not> list_ex (\<lambda>i. citem_match False i 38) items"
  shows "\<exists>x y. u = k @ x @ y \<and> x \<noteq> [] \<and> 38 \<notin> set x \<and> y \<in> lang False r"
proof -
  from assms(1) obtain x y where "u = k @ x @ y" "x \<in> lang False (Plus (Cls items))"
      "y \<in> lang False r"
    unfolding lang.simps(4)[of False "Lit k"] lang.simps(4)[of False "Plus (Cls items)"]
      lang_Lit_False
    by blast
  then show ?thesis using lang_Plus_Cls[OF _ assms(2)] by blast
qed

lemma lang_field_last:
  assumes "u \<in> lang False (Seq (Lit k) (Plus (Cls items)))"
    and "\<not> list_ex (\<lambda>i. citem_match False i 38) items"
  shows "\<exists>x. u = k @ x \<and> x \<noteq> [] \<and> 38 \<notin> set x"
proof -
  from assms(1) obtain x where "u = k @ x" "x \<in> lang False (Plus (Cls items))"
    unfolding lang.simps(4)[of False "Lit k"] lang_Lit_False
    by blast
  then show ?thesis using lang_Plus_Cls[OF _ assms(2)] by blast
qed

lemma digit_no_amp: "\<not> list_ex (\<lambda>i. citem_match False i 38) [DigitC]"
  by (simp add: isDigit_def)

lemma word_no_amp: "\<not> list_ex (\<lambda>i. citem_match False i 38) [WordC, DigitC]"
  by (simp add: isDigit_def isWordChar_def)

lemma exceptPattern_shape:
  assumes "u \<in> lang False (source exceptPattern)"
  shows "\<exists>x1 x2 x3 x4 x5 x6 x7 x8 x9 x10 x11.
     u = str ''https://stats.g.doubleclick.net/g/collect?v='' @ x1 @ str ''&tid=G-'' @ x2
       @ str ''&cid='' @ x3 @ str ''.'' @ x4 @ str ''&gtm='' @ x5 @ str ''&aip='' @ x6
       @ str ''&dma='' @ x7 @ str ''&gcd='' @ x8 @ str ''&npa='' @ x9 @ str ''&frm='' @ x10
       @ str ''&tag_exp='' @ x11
     \<and> 38 \<notin> set x1 \<and> 38 \<notin> set x2 \<and> 38 \<notin> set x3 \<and> 38 \<notin> set x4 \<and> 38 \<notin> set x5
     \<and> 38 \<notin> set x6 \<and> 38 \<notin> set x7 \<and> 38 \<notin> set x8 \<and> 38 \<notin> set x9 \<and> 38 \<notin> set x10
     \<and> 38 \<notin> set x11"
proof -
  note d = digit_no_amp and w = word_no_amp
  have src: "source exceptPattern = seqs
     [Lit (str ''https://stats.g.doubleclick.net/g/collect?v=''), Plus (Cls [DigitC]),
      Lit (str ''&tid=G-''), Plus (Cls [WordC, DigitC]),
      Lit (str ''&cid=''), Plus (Cls [DigitC]), Lit (str ''.''), Plus (Cls [DigitC]),
      Lit (str ''&gtm=''), Plus (Cls [WordC, DigitC]),
      Lit (str ''&aip=''), Plus (Cls [DigitC]),
      Lit (str ''&dma=''), Plus (Cls [DigitC]),
      Lit (str ''&gcd=''), Plus (Cls [WordC, DigitC]),
      Lit (str ''&npa=''), Plus (Cls [DigitC]),
      Lit (str ''&frm=''), Plus (Cls [DigitC]),
      Lit (str ''&tag_exp=''), Plus (Cls [DigitC])]"
    unfolding exceptPattern_def by simp
  from assms obtain x1 y1 where 1:
      "u = str ''https://stats.g.doubleclick.net/g/collect?v='' @ x1 @ y1" "38 \<notin> set x1"
      and y1: "y1 \<in> lang False (seqs
        [Lit (str ''&tid=G-''), Plus (Cls [WordC, DigitC]),
         Lit (str ''&cid=''), Plus (Cls [DigitC]), Lit (str ''.''), Plus (Cls [DigitC]),
         Lit (str ''&gtm=''), Plus (Cls [WordC, DigitC]),
         Lit (str ''&aip=''), Plus (Cls [DigitC]),
         Lit (str ''&dma=''), Plus (Cls [DigitC]),
         Lit (str ''&gcd=''), Plus (Cls [WordC, DigitC]),
         Lit (str ''&npa=''), Plus (Cls [DigitC]),
         Lit (str ''&frm=''), Plus (Cls [DigitC]),
         Lit (str ''&tag_exp=''), Plus (Cls [DigitC])])"
    unfolding src seqs.simps using lang_field[OF _ d] by blast
  from y1 obtain x2 y2 where 2: "y1 = str ''&tid=G-'' @ x2 @ y2" "38 \<notin> set x2"
      and y2: "y2 \<in> lang False (seqs
        [Lit (str ''&cid=''), Plus (Cls [DigitC]), Lit (str ''.''), Plus (Cls [DigitC]),
         Lit (str ''&gtm=''), Plus (Cls [WordC, DigitC]),
         Lit (str ''&aip=''), Plus (Cls [DigitC]),
         Lit (str ''&dma=''), Plus (Cls [DigitC]),
         Lit (str ''&gcd=''), Plus (Cls [WordC, DigitC]),
         Lit (str ''&npa=''), Plus (Cls [DigitC]),
         Lit (str ''&frm=''), Plus (Cls [DigitC]),
         Lit (str ''&tag_exp=''), Plus (Cls [DigitC])])"
    unfolding seqs.simps using lang_field[OF _ w] by blast
  from y2 obtain x3 y3 where 3: "y2 = str ''&cid='' @ x3 @ y3" "38 \<notin> set x3"
      and y3: "y3 \<in> lang False (seqs
        [Lit (str ''.''), Plus (Cls [DigitC]),
         Lit (str ''&gtm=''), Plus (Cls [WordC, DigitC]),
         Lit (str ''&aip=''), Plus (Cls [DigitC]),
         Lit (str ''&dma=''), Plus (Cls [DigitC]),
         Lit (str ''&gcd=''), Plus (Cls [WordC, DigitC]),
         Lit (str ''&npa=''), Plus (Cls [DigitC]),
         Lit (str ''&frm=''), Plus (Cls [DigitC]),
         Lit (str ''&tag_exp=''), Plus (Cls [DigitC])])"
    unfolding seqs.simps using lang_field[OF _ d] by blast
  from y3 obtain x4 y4 where 4: "y3 = str ''.'' @ x4 @ y4" "38 \<notin> set x4"
      and y4: "y4 \<in> lang False (seqs
        [Lit (str ''&gtm=''), Plus (Cls [WordC, DigitC]),
         Lit (str ''&aip=''), Plus (Cls [DigitC]),
         Lit (str ''&dma=''), Plus (Cls [DigitC]),
         Lit (str ''&gcd=''), Plus (Cls [WordC, DigitC]),
         Lit (str ''&npa=''), Plus (Cls [DigitC]),
         Lit (str ''&frm=''), Plus (Cls [DigitC]),
         Lit (str ''&tag_exp=''), Plus (Cls [DigitC])])"
    unfolding seqs.simps using lang_field[OF _ d] by blast
  from y4 obtain x5 y5 where 5: "y4 = str ''&gtm='' @ x5 @ y5" "38 \<notin> set x5"
      and y5: "y5 \<in> lang False (seqs
        [Lit (str ''&aip=''), Plus (Cls [DigitC]),
         Lit (str ''&dma=''), Plus (Cls [DigitC]),
         Lit (str ''&gcd=''), Plus (Cls [WordC, DigitC]),
         Lit (str ''&npa=''), Plus (Cls [DigitC]),
         Lit (str ''&frm=''), Plus (Cls [DigitC]),
         Lit (str ''&tag_exp=''), Plus (Cls [DigitC])])"
    unfolding seqs.simps using lang_field[OF _ w] by blast
  from y5 obtain x6 y6 where 6: "y5 = str ''&aip='' @ x6 @ y6" "38 \<notin> set x6"
      and y6: "y6 \<in> lang False (seqs
        [Lit (str ''&dma=''), Plus (Cls [DigitC]),
         Lit (str ''&gcd=''), Plus (Cls [WordC, DigitC]),
         Lit (str ''&npa=''), Plus (Cls [DigitC]),
         Lit (str ''&frm=''), Plus (Cls [DigitC]),
         Lit (str ''&tag_exp=''), Plus (Cls [DigitC])])"
    unfolding seqs.simps using lang_field[OF _ d] by blast
  from y6 obtain x7 y7 where 7: "y6 = str ''&dma='' @ x7 @ y7" "38 \<notin> set x7"
      and y7: "y7 \<in> lang False (seqs
        [Lit (str ''&gcd=''), Plus (Cls [WordC, DigitC]),
         Lit (str ''&npa=''), Plus (Cls [DigitC]),
         Lit (str ''&frm=''), Plus (Cls [DigitC]),
         Lit (str ''&tag_exp=''), Plus (Cls [DigitC])])"
    unfolding seqs.simps using lang_field[OF _ d] by blast
  from y7 obtain x8 y8 where 8: "y7 = str ''&gcd='' @ x8 @ y8" "38 \<notin> set x8"
      and y8: "y8 \<in> lang False (seqs
        [Lit (str ''&npa=''), Plus (Cls [DigitC]),
         Lit (str ''&frm=''), Plus (Cls [DigitC]),
         Lit (str ''&tag_exp=''), Plus (Cls [DigitC])])"
    unfolding seqs.simps using lang_field[OF _ w] by blast
  from y8 obtain x9 y9 where 9: "y8 = str ''&npa='' @ x9 @ y9" "38 \<notin> set x9"
      and y9: "y9 \<in> lang False (seqs
        [Lit (str ''&frm=''), Plus (Cls [DigitC]),
         Lit (str ''&tag_exp=''), Plus (Cls [DigitC])])"
    unfolding seqs.simps using lang_field[OF _ d] by blast
  from y9 obtain x10 y10 where 10: "y9 = str ''&frm='' @ x10 @ y10" "38 \<notin> set x10"
      and y10: "y10 \<in> lang False (seqs [Lit (str ''&tag_exp=''), Plus (Cls [DigitC])])"
    unfolding seqs.simps using lang_field[OF _ d] by blast
  from y10 obtain x11 where 11: "y10 = str ''&tag_exp='' @ x11" "38 \<notin> set x11"
    unfolding seqs.simps using lang_field_last[OF _ d] by blast
  show ?thesis
    apply (rule exI[of _ x1], rule exI[of _ x2], rule exI[of _ x3], rule exI[of _ x4])
    apply (rule exI[of _ x5], rule exI[of _ x6], rule exI[of _ x7], rule exI[of _ x8])
    apply (rule exI[of _ x9], rule exI[of _ x10], rule exI[of _ x11])
    using 1 2 3 4 5 6 7 8 9 10 11 by simp
qed

lemma uniq_split:
  "x \<notin> set a \<Longrightarrow> x \<notin> set b \<Longrightarrow> a @ x # b = a' @ x # b' \<Longrightarrow> a = a' \<and> b = b'"
proof (induction a arbitrary: a')
  case Nil
  then show ?case by (cases a') auto
next
  case (Cons c a)
  then show ?case by (cases a') auto
qed

lemma splitAmp_noamp_append:
  "38 \<notin> set a \<Longrightarrow> splitAmp acc (a @ s) = splitAmp (rev a @ acc) s"
  by (induction a arbitrary: acc) auto

lemma splitAmp_noamp: "38 \<notin> set a \<Longrightarrow> splitAmp acc a = [rev acc @ a]"
  using splitAmp_noamp_append[of a acc "[]"] by simp

lemma splitAmp_head: "\<exists>p more. splitAmp acc s = (rev acc @ p) # more"
proof (induction s arbitrary: acc)
  case Nil
  show ?case by simp
next
  case (Cons c s)
  show ?case
  proof (cases "c = 38")
    case True
    then show ?thesis by simp
  next
    case False
    from Cons[of "c # acc"] obtain p more where "splitAmp (c # acc) s = (rev (c # acc) @ p) # more"
      by blast
    then have "splitAmp acc (c # s) = (rev acc @ (c # p)) # more" using False by simp
    then show ?thesis by blast
  qed
qed

lemma splitAmp_joinAmp:
  "ps \<noteq> [] \<Longrightarrow> \<forall>p \<in> set ps. 38 \<notin> set p \<Longrightarrow> splitAmp [] (joinAmp ps) = ps"
proof (induction ps rule: joinAmp.induct)
  case 1
  then show ?case by simp
next
  case (2 p)
  then show ?case by (simp add: splitAmp_noamp)
next
  case (3 p q ps)
  then have "splitAmp [] (joinAmp (q # ps)) = q # ps" by simp
  moreover have "38 \<notin> set p" using 3(3) by simp
  ultimately show ?case by (simp add: splitAmp_noamp_append)
qed

lemma joinAmp_chars: "c \<in> set (joinAmp ps) \<Longrightarrow> c = 38 \<or> (\<exists>p \<in> set ps. c \<in> set p)"
  by (induction ps rule: joinAmp.induct) auto

lemma beaconParams_chars:
  "p \<in> set beaconParams \<Longrightarrow> 38 \<notin> set p \<and> 63 \<notin> set p"
  by (auto simp: beaconParams_def str_def)

lemma beacon_split_segments:
  assumes "38 \<notin> set x1" "38 \<notin> set x2" "38 \<notin> set x3" "38 \<notin> set x4" "38 \<notin> set x5"
    "38 \<notin> set x6" "38 \<notin> set x7" "38 \<notin> set x8" "38 \<notin> set x9" "38 \<notin> set x10"
    "38 \<notin> set x11"
  shows "\<exists>p more. splitAmp [] (str ''v='' @ x1 @ str ''&tid=G-'' @ x2
       @ str ''&cid='' @ x3 @ str ''.'' @ x4 @ str ''&gtm='' @ x5 @ str ''&aip='' @ x6
       @ str ''&dma='' @ x7 @ str ''&gcd='' @ x8 @ str ''&npa='' @ x9 @ str ''&frm='' @ x10
       @ str ''&tag_exp='' @ x11 @ post)
     = [str ''v='' @ x1, str ''tid=G-'' @ x2, str ''cid='' @ x3 @ str ''.'' @ x4,
        str ''gtm='' @ x5, str ''aip='' @ x6, str ''dma='' @ x7, str ''gcd='' @ x8,
        str ''npa='' @ x9, str ''frm='' @ x10, str ''tag_exp='' @ x11 @ p] @ more"
proof -
  obtain p more where pm:
    "splitAmp (rev (str ''tag_exp='' @ x11)) post = (rev (rev (str ''tag_exp='' @ x11)) @ p) # more"
    using splitAmp_head by blast
  have a: "\<And>a acc s. 38 \<notin> set a \<Longrightarrow> splitAmp acc (a @ s) = splitAmp (rev a @ acc) s"
    by (rule splitAmp_noamp_append)
  have "splitAmp [] (str ''v='' @ x1 @ str ''&tid=G-'' @ x2
       @ str ''&cid='' @ x3 @ str ''.'' @ x4 @ str ''&gtm='' @ x5 @ str ''&aip='' @ x6
       @ str ''&dma='' @ x7 @ str ''&gcd='' @ x8 @ str ''&npa='' @ x9 @ str ''&frm='' @ x10
       @ str ''&tag_exp='' @ x11 @ post)
     = [str ''v='' @ x1, str ''tid=G-'' @ x2, str ''cid='' @ x3 @ str ''.'' @ x4,
        str ''gtm='' @ x5, str ''aip='' @ x6, str ''dma='' @ x7, str ''gcd='' @ x8,
        str ''npa='' @ x9, str ''frm='' @ x10]
       @ splitAmp (rev (str ''tag_exp='' @ x11)) post"
    using assms by (simp add: str_def a)
  then show ?thesis using pm by auto
qed

lemma variant_not_exception:
  assumes "distinct ps" and "set ps \<subseteq> set beaconParams" and "ps \<noteq> beaconParams"
  shows "\<not> test exceptPattern (beaconVariant ps)"
proof
  assume "test exceptPattern (beaconVariant ps)"
  then obtain pre u post where url: "beaconVariant ps = pre @ u @ post"
      and u: "u \<in> lang False (source exceptPattern)"
    using test_lang[OF exceptPattern_anchor_free, of "beaconVariant ps"] exceptPattern_ic
    by auto
  from exceptPattern_shape[OF u] obtain x1 x2 x3 x4 x5 x6 x7 x8 x9 x10 x11 where
    shape: "u = str ''https://stats.g.doubleclick.net/g/collect?v='' @ x1 @ str ''&tid=G-'' @ x2
       @ str ''&cid='' @ x3 @ str ''.'' @ x4 @ str ''&gtm='' @ x5 @ str ''&aip='' @ x6
       @ str ''&dma='' @ x7 @ str ''&gcd='' @ x8 @ str ''&npa='' @ x9 @ str ''&frm='' @ x10
       @ str ''&tag_exp='' @ x11"
    and na: "38 \<notin> set x1" "38 \<notin> set x2" "38 \<notin> set x3" "38 \<notin> set x4" "38 \<notin> set x5"
      "38 \<notin> set x6" "38 \<notin> set x7" "38 \<notin> set x8" "38 \<notin> set x9" "38 \<notin> set x10"
      "38 \<notin> set x11"
    by blast
  let ?B = "str ''https://stats.g.doubleclick.net/g/collect''"
  let ?R = "str ''v='' @ x1 @ str ''&tid=G-'' @ x2
       @ str ''&cid='' @ x3 @ str ''.'' @ x4 @ str ''&gtm='' @ x5 @ str ''&aip='' @ x6
       @ str ''&dma='' @ x7 @ str ''&gcd='' @ x8 @ str ''&npa='' @ x9 @ str ''&frm='' @ x10
       @ str ''&tag_exp='' @ x11 @ post"
  have 1: "beaconVariant ps = ?B @ 63 # joinAmp ps"
    by (simp add: beaconVariant_def beaconBase_def str_def)
  have 2: "pre @ u @ post = (pre @ ?B) @ 63 # ?R"
    unfolding shape by (simp add: str_def)
  have nb: "63 \<notin> set ?B" by (simp add: str_def)
  have nj: "63 \<notin> set (joinAmp ps)"
  proof
    assume "63 \<in> set (joinAmp ps)"
    then obtain p where "p \<in> set ps" "63 \<in> set p"
      using joinAmp_chars[of 63 ps] by auto
    then show False using beaconParams_chars[of p] assms(2) by blast
  qed
  have "?B @ 63 # joinAmp ps = (pre @ ?B) @ 63 # ?R" using 1 2 url by simp
  from uniq_split[OF nb nj this] have J: "joinAmp ps = ?R" by blast
  have psne: "ps \<noteq> []"
  proof
    assume "ps = []"
    then have "?R = []" using J by simp
    then show False by (simp add: str_def)
  qed
  have amp: "\<forall>p \<in> set ps. 38 \<notin> set p" using beaconParams_chars assms(2) by blast
  have sp: "splitAmp [] ?R = ps" using splitAmp_joinAmp[OF psne amp] J by simp
  from beacon_split_segments[OF na, of post] sp obtain p more where
    ps: "ps = [str ''v='' @ x1, str ''tid=G-'' @ x2, str ''cid='' @ x3 @ str ''.'' @ x4,
        str ''gtm='' @ x5, str ''aip='' @ x6, str ''dma='' @ x7, str ''gcd='' @ x8,
        str ''npa='' @ x9, str ''frm='' @ x10, str ''tag_exp='' @ x11 @ p] @ more"
    by metis
  have m: "e \<in> set beaconParams"
    if "e \<in> set [str ''v='' @ x1, str ''tid=G-'' @ x2, str ''cid='' @ x3 @ str ''.'' @ x4,
        str ''gtm='' @ x5, str ''aip='' @ x6, str ''dma='' @ x7, str ''gcd='' @ x8,
        str ''npa='' @ x9, str ''frm='' @ x10, str ''tag_exp='' @ x11 @ p]" for e
  proof -
    have "e \<in> set ps" using that by (subst ps) auto
    then show ?thesis using assms(2) by blast
  qed
  have e1: "str ''v='' @ x1 = str ''v=1''"
    using m[of "str ''v='' @ x1"] by (simp add: beaconParams_def str_def)
  have e2: "str ''tid=G-'' @ x2 = str ''tid=G-ABC123''"
    using m[of "str ''tid=G-'' @ x2"] by (simp add: beaconParams_def str_def)
  have e3: "str ''cid='' @ x3 @ str ''.'' @ x4 = str ''cid=1.2''"
    using m[of "str ''cid='' @ x3 @ str ''.'' @ x4"] by (simp add: beaconParams_def str_def)
  have e4: "str ''gtm='' @ x5 = str ''gtm=xyz''"
    using m[of "str ''gtm='' @ x5"] by (simp add: beaconParams_def str_def)
  have e5: "str ''aip='' @ x6 = str ''aip=1''"
    using m[of "str ''aip='' @ x6"] by (simp add: beaconParams_def str_def)
  have e6: "str ''dma='' @ x7 = str ''dma=1''"
    using m[of "str ''dma='' @ x7"] by (simp add: beaconParams_def str_def)
  have e7: "str ''gcd='' @ x8 = str ''gcd=1''"
    using m[of "str ''gcd='' @ x8"] by (simp add: beaconParams_def str_def)
  have e8: "str ''npa='' @ x9 = str ''npa=1''"
    using m[of "str ''npa='' @ x9"] by (simp add: beaconParams_def str_def)
  have e9: "str ''frm='' @ x10 = str ''frm=1''"
    using m[of "str ''frm='' @ x10"] by (simp add: beaconParams_def str_def)
  have e10: "str ''tag_exp='' @ x11 @ p = str ''tag_exp=1''"
    using m[of "str ''tag_exp='' @ x11 @ p"] by (simp add: beaconParams_def str_def)
  have pm: "ps = beaconParams @ more"
    by (subst ps) (simp only: e1 e2 e3 e4 e5 e6 e7 e8 e9 e10 beaconParams_def)
  have "more = []"
  proof (rule ccontr)
    assume "more \<noteq> []"
    then obtain x where x: "x \<in> set more" by (cases more) auto
    then have "x \<in> set ps" using pm by simp
    then have "x \<in> set beaconParams" using assms(2) by blast
    moreover have "set beaconParams \<inter> set more = {}" using assms(1) pm by simp
    ultimately show False using x by blast
  qed
  then show False using pm assms(3) by simp
qed

lemma canonical_no_earlier:
  "\<not> isVideo canonicalBeacon"
  "\<not> isGA canonicalBeacon"
  "\<not> isYT canonicalBeacon"
  "\<not> isRecaptcha canonicalBeacon"
  unfolding isGA_unfold isYT_unfold isRecaptcha_unfold isVideo_def
  by (simp_all add: canonicalBeacon_def pattern_defs eval_defs)

lemma canonical_is_variant: "canonicalBeacon = beaconVariant beaconParams"
  by (simp add: canonicalBeacon_def beaconVariant_def beaconBase_def beaconParams_def str_def)

text \<open>
  C4. The canonical beacon URL is classified Exception, on every page and with every
  configuration. A URL made of the same parameters in another order, or of some of them
  in any order, is never classified Exception; when no earlier rule and no exact-match
  entry applies to it, it gets the default tag NONE.
\<close>

theorem C4_beacon_exact_order:
  "LinkType rt canonicalBeacon page = Exception
   \<and> canonicalBeacon = beaconVariant beaconParams
   \<and> (distinct ps \<and> set ps \<subseteq> set beaconParams \<and> ps \<noteq> beaconParams \<longrightarrow>
        LinkType rt (beaconVariant ps) page \<noteq> Exception
        \<and> (\<not> isVideo (beaconVariant ps) \<and> \<not> isGA (beaconVariant ps)
            \<and> \<not> isYT (beaconVariant ps) \<and> \<not> isRecaptcha (beaconVariant ps)
            \<and> beaconVariant ps \<notin> set (exceptUrls rt) \<and> page \<notin> set (exceptPages rt)
            \<longrightarrow> LinkType rt (beaconVariant ps) page = NONE))"
proof -
  have "canonicalBeacon \<in> lang (ignoreCase exceptPattern) (source exceptPattern)"
    using canonical_matchesWhole matchesWhole_lang[OF exceptPattern_anchor_free] by simp
  then have "test exceptPattern ([] @ canonicalBeacon @ [])"
    unfolding test_lang[OF exceptPattern_anchor_free] by blast
  then have "isException canonicalBeacon" by (simp add: isException_def)
  then have a: "LinkType rt canonicalBeacon page = Exception"
    using canonical_no_earlier by (simp add: LinkType_is)
  have b: "LinkType rt (beaconVariant ps) page \<noteq> Exception
        \<and> (\<not> isVideo (beaconVariant ps) \<and> \<not> isGA (beaconVariant ps)
            \<and> \<not> isYT (beaconVariant ps) \<and> \<not> isRecaptcha (beaconVariant ps)
            \<and> beaconVariant ps \<notin> set (exceptUrls rt) \<and> page \<notin> set (exceptPages rt)
            \<longrightarrow> LinkType rt (beaconVariant ps) page = NONE)"
    if "distinct ps" "set ps \<subseteq> set beaconParams" "ps \<noteq> beaconParams"
  proof -
    have "\<not> isException (beaconVariant ps)"
      using variant_not_exception[OF that] by (simp add: isException_def)
    then show ?thesis by (simp add: LinkType_is isListed_def list_ex_iff)
  qed
  show ?thesis using a b canonical_is_variant by blast
qed

lemma reordered_no_earlier:
  "\<not> isVideo (beaconVariant [str ''tid=G-ABC123'', str ''v=1''])"
  "\<not> isGA (beaconVariant [str ''tid=G-ABC123'', str ''v=1''])"
  "\<not> isYT (beaconVariant [str ''tid=G-ABC123'', str ''v=1''])"
  "\<not> isRecaptcha (beaconVariant [str ''tid=G-ABC123'', str ''v=1''])"
  unfolding isGA_unfold isYT_unfold isRecaptcha_unfold isVideo_def
  by (simp_all add: beaconVariant_def beaconBase_def pattern_defs eval_defs)

theorem C4_witness:
  "LinkType exampleRoutes canonicalBeacon (str ''p'') = Exception
   \<and> LinkType exampleRoutes (beaconVariant [str ''tid=G-ABC123'', str ''v=1'']) (str ''p'') = NONE"
proof -
  let ?ps = "[str ''tid=G-ABC123'', str ''v=1'']"
  have 1: "distinct ?ps \<and> set ?ps \<subseteq> set beaconParams \<and> ?ps \<noteq> beaconParams"
    by (simp add: beaconParams_def str_def)
  have 2: "beaconVariant ?ps \<notin> set (exceptUrls exampleRoutes)"
    by (simp add: beaconVariant_def beaconBase_def exceptUrls_def exampleRoutes_def str_def)
  have 3: "str ''p'' \<notin> set (exceptPages exampleRoutes)"
    by (simp add: exceptPages_def exampleRoutes_def str_def)
  show ?thesis
    using C4_beacon_exact_order[of exampleRoutes "str ''p''" ?ps] 1 2 3 reordered_no_earlier
    by blast
qed


end
